(* ===== verification/Prelude.thy ===== *)
theory Prelude
  imports Main "HOL-Library.Word" "HOL-Library.Multiset" "HOL-Library.AList"
begin

text \<open>
  Shared vocabulary of the development: the machine integers of the build target, association
  lists that stand for the hash maps of the code, and the generic lemmas on them that several
  components use.

  The build target of the verified crates is \<open>wasm32-wasip2\<close>: \<open>usize\<close> has 32 bits. The release
  profile is modelled, in which integer overflow wraps.
\<close>

type_synonym byte = "8 word"
type_synonym u16 = "16 word"
type_synonym u32 = "32 word"
type_synonym u64 = "64 word"
type_synonym u128 = "128 word"
type_synonym usize = "32 word"

section \<open>Words\<close>

text \<open>The unsigned \<open>div_ceil\<close> and \<open>saturating_sub\<close> of the Rust integer types.\<close>

definition div_ceil :: "'a::len word \<Rightarrow> 'a word \<Rightarrow> 'a word" where
  "div_ceil x y = (if x mod y > 0 then x div y + 1 else x div y)"

definition saturating_sub :: "'a::len word \<Rightarrow> 'a word \<Rightarrow> 'a word" where
  "saturating_sub x y = (if y \<le> x then x - y else 0)"

lemma unat_saturating_sub [simp]: "unat (saturating_sub x y) = unat x - unat y"
  by (simp add: saturating_sub_def unat_sub word_le_nat_alt)

lemma unat_min: "unat (min x y) = min (unat x) (unat y)"
  by (simp add: min_def word_le_nat_alt)

lemma unat_ucast_up:
  fixes x :: "'a::len word"
  assumes "LENGTH('a) \<le> LENGTH('b::len)"
  shows "unat (ucast x :: 'b word) = unat x"
proof -
  have "unat x < 2 ^ LENGTH('b)"
    using unsigned_less [of x, where 'a = nat] assms
    by (meson less_le_trans one_le_numeral power_increasing)
  then show ?thesis by (simp add: unsigned_ucast_eq take_bit_nat_eq_self)
qed

lemma unat_ucast_down:
  fixes x :: "'a::len word"
  assumes "unat x < 2 ^ LENGTH('b::len)"
  shows "unat (ucast x :: 'b word) = unat x"
  using assms by (simp add: unsigned_ucast_eq take_bit_nat_eq_self)

lemma unat_div_ceil:
  assumes "1 < unat y"
  shows "unat (div_ceil x y) = (unat x + (unat y - 1)) div unat y"
proof -
  define a b where "a = unat x" and "b = unat y"
  have b: "1 < b" using assms by (simp add: b_def)
  have eq: "(a + (b - 1)) div b = (if 0 < a mod b then a div b + 1 else a div b)"
  proof (cases "a mod b = 0")
    case True
    then obtain k where "a = b * k" by (metis mod_0_imp_dvd dvd_def)
    then have "(a + (b - 1)) div b = k + (b - 1) div b"
      using b by (metis div_mult_self2 add.commute not_less_zero)
    then show ?thesis using b True \<open>a = b * k\<close> by simp
  next
    case False
    have "a + (b - 1) = b * (a div b) + (a mod b + (b - 1))"
      by simp
    then have "(a + (b - 1)) div b = a div b + (a mod b + (b - 1)) div b"
      using b by (metis div_mult_self2 not_less_zero add.commute)
    moreover have "(a mod b + (b - 1)) div b = 1"
    proof -
      define r where "r = a mod b - 1"
      have "a mod b < b" using b by simp
      then have "a mod b + (b - 1) = r + b" and "r < b"
        using False b unfolding r_def by linarith+
      then show ?thesis using b by (simp only: div_add_self2) simp
    qed
    ultimately show ?thesis using False by simp
  qed
  have lt: "a < 2 ^ LENGTH('a)" by (simp add: a_def)
  have "a div b + 1 < 2 ^ LENGTH('a) \<or> a mod b = 0"
  proof (cases "a = 0")
    case False
    then have "a div b < a" using b by simp
    then show ?thesis using lt by linarith
  qed simp
  then have "0 < a mod b \<Longrightarrow> unat (x div y + 1) = a div b + 1"
    by (simp add: unat_word_ariths unat_div a_def b_def)
  then show ?thesis using eq
    by (simp add: div_ceil_def a_def [symmetric] b_def [symmetric] word_less_nat_alt unat_div
        unat_mod)
qed

section \<open>Sorted lists and sums\<close>

lemma sorted_count_le_nth:
  fixes v :: "'a::linorder list"
  assumes "sorted v" "k < length v"
  shows "Suc k \<le> length (filter (\<lambda>x. x \<le> v ! k) v)"
proof -
  have "\<forall>x \<in> set (take (Suc k) v). x \<le> v ! k"
    using assms by (auto simp: in_set_conv_nth sorted_iff_nth_mono)
  then have "filter (\<lambda>x. x \<le> v ! k) (take (Suc k) v) = take (Suc k) v"
    by (simp add: filter_id_conv)
  then have "filter (\<lambda>x. x \<le> v ! k) v = take (Suc k) v @ filter (\<lambda>x. x \<le> v ! k) (drop (Suc k) v)"
    by (metis append_take_drop_id filter_append)
  then show ?thesis using assms(2) by simp
qed

lemma sorted_count_le_below:
  fixes v :: "'a::linorder list"
  assumes "sorted v" "k < length v" "y < v ! k"
  shows "length (filter (\<lambda>x. x \<le> y) v) \<le> k"
proof -
  have "\<forall>x \<in> set (drop k v). \<not> x \<le> y"
  proof
    fix x assume "x \<in> set (drop k v)"
    then obtain i where "i < length v - k" "x = v ! (k + i)"
      using assms(2) by (auto simp: in_set_conv_nth)
    then have "v ! k \<le> x" using assms(1) by (simp add: sorted_nth_mono)
    then show "\<not> x \<le> y" using assms(3) by auto
  qed
  then have "filter (\<lambda>x. x \<le> y) (drop k v) = []"
    by (simp add: filter_empty_conv)
  then have "filter (\<lambda>x. x \<le> y) v = filter (\<lambda>x. x \<le> y) (take k v)"
    by (metis append_take_drop_id filter_append append_Nil2)
  then show ?thesis
    by (metis length_filter_le length_take min.bounded_iff)
qed

lemma count_sort [simp]: "length (filter P (sort xs)) = length (filter P xs)"
  by (metis length_sort filter_sort)

lemma ceil100_bounds:
  fixes m :: nat
  assumes "1 \<le> m"
  shows "m \<le> 100 * Suc ((m + 99) div 100 - 1)" and "100 * ((m + 99) div 100 - 1) < m"
proof -
  define q where "q = (m + 99) div 100"
  define r where "r = (m + 99) mod 100"
  have m: "m + 99 = 100 * q + r" "r < 100" by (simp_all add: q_def r_def)
  with assms have "1 \<le> q" by linarith
  then obtain k where k: "q = Suc k" by (cases q) auto
  show "m \<le> 100 * Suc ((m + 99) div 100 - 1)"
    using m k unfolding q_def [symmetric] by simp
  show "100 * ((m + 99) div 100 - 1) < m"
    using m k unfolding q_def [symmetric] by simp
qed

lemma sum_list_bounds:
  fixes f :: "'a \<Rightarrow> nat"
  assumes "\<And>x. x \<in> set xs \<Longrightarrow> a \<le> f x \<and> f x \<le> b"
  shows "a * length xs \<le> sum_list (map f xs) \<and> sum_list (map f xs) \<le> b * length xs"
  using assms by (induction xs) (auto simp: add_mono)

section \<open>Association lists\<close>

text \<open>
  A \<open>HashMap\<close> is an association list with distinct keys: its order is one iteration order of
  the map. \<open>insert\<close> is \<open>AList.update\<close>, \<open>remove\<close> is \<open>AList.delete\<close>, \<open>len\<close> is
  \<open>length\<close>, \<open>get\<close> is \<open>map_of\<close>.
\<close>

abbreviation keys :: "('k \<times> 'v) list \<Rightarrow> 'k list" where
  "keys m \<equiv> map fst m"

definition wf_map :: "('k \<times> 'v) list \<Rightarrow> bool" where
  "wf_map m \<longleftrightarrow> distinct (keys m)"

lemma wf_map_Nil [simp]: "wf_map []"
  by (simp add: wf_map_def)

lemma wf_map_update [simp]: "wf_map m \<Longrightarrow> wf_map (AList.update k v m)"
  by (simp add: wf_map_def distinct_update)

lemma wf_map_delete [simp]: "wf_map m \<Longrightarrow> wf_map (AList.delete k m)"
  by (simp add: wf_map_def distinct_delete)

lemma update_fresh: "k \<notin> set (keys m) \<Longrightarrow> AList.update k v m = m @ [(k, v)]"
  by (induction m) auto

lemma keys_delete: "keys (AList.delete k m) = filter (\<lambda>x. x \<noteq> k) (keys m)"
  by (induction m) (auto simp: AList.delete_eq)

lemma set_keys_delete: "set (keys (AList.delete k m)) = set (keys m) - {k}"
  by (auto simp: keys_delete)

section \<open>Decimal numerals\<close>

fun decimal :: "nat \<Rightarrow> string" where
  "decimal n = (if n < 10 then [char_of (48 + n)] else decimal (n div 10) @ [char_of (48 + n mod 10)])"

declare decimal.simps [simp del]

end
