(* ===== verification/Stats.thy ===== *)
theory Stats
  imports Prelude
begin

text \<open>
  \<open>crates/netperf-core/src/stats.rs\<close>: the protocol and result types both transports share, and
  the exact nearest-rank percentiles of \<open>Dist::from_samples\<close>.
\<close>

datatype direction = ClientToServer | ServerToClient | Bidirectional

record dist =
  dist_count :: u64
  dist_min :: u64
  p50 :: u64
  p90 :: u64
  p99 :: u64
  p100 :: u64
  mean :: u64

definition dist_default :: dist where
  "dist_default = \<lparr>dist_count = 0, dist_min = 0, p50 = 0, p90 = 0, p99 = 0, p100 = 0, mean = 0\<rparr>"

text \<open>
  The closure \<open>pct\<close>: \<open>p as usize * n\<close> is a product of two \<open>usize\<close>, so it wraps at 32 bits
  on the build target; the index is clamped to the last sample.
\<close>

definition pct_rank :: "u64 \<Rightarrow> usize \<Rightarrow> usize" where
  "pct_rank p n = div_ceil (ucast p * n) 100"

definition pct_index :: "u64 \<Rightarrow> usize \<Rightarrow> usize" where
  "pct_index p n = min (saturating_sub (pct_rank p n) 1) (n - 1)"

definition pct :: "u64 list \<Rightarrow> u64 \<Rightarrow> u64" where
  "pct v p = v ! unat (pct_index p (of_nat (length v)))"

definition sum_u128 :: "u64 list \<Rightarrow> u128" where
  "sum_u128 v = sum_list (map ucast v)"

definition from_samples :: "u64 list \<Rightarrow> dist" where
  "from_samples v0 =
     (if v0 = [] then dist_default
      else
        (let v = sort v0; n = length v; s = sum_u128 v
         in \<lparr>dist_count = of_nat n, dist_min = v ! 0, p50 = pct v 50, p90 = pct v 90,
             p99 = pct v 99, p100 = v ! (n - 1), mean = ucast (s div of_nat n)\<rparr>))"

record latency_stats =
  interval_ns :: dist
  throughput_bps :: dist
  clock_baseline_ns :: u64
  warmup_discarded :: u64

record stream_stats =
  sender :: bool
  duration_millis :: u64
  bytes_transferred :: u64
  syscalls :: u64
  latency :: "latency_stats option"

text \<open>The stream results, keyed by the stream id, in one iteration order of the \<open>HashMap\<close>.\<close>

record test_results =
  results_streams :: "(nat \<times> stream_stats) list"

definition test_results_default :: test_results where
  "test_results_default = \<lparr>results_streams = []\<rparr>"

section \<open>Percentiles\<close>

text \<open>
  The documented meaning of a percentile: the smallest sample whose rank covers \<open>p\<close> percent of
  the samples.
\<close>

definition nearest_rank :: "nat \<Rightarrow> u64 list \<Rightarrow> u64 \<Rightarrow> bool" where
  "nearest_rank p xs q \<longleftrightarrow>
     q \<in> set xs \<and>
     p * length xs \<le> 100 * length (filter (\<lambda>x. x \<le> q) xs) \<and>
     (\<forall>y \<in> set xs. y < q \<longrightarrow> 100 * length (filter (\<lambda>x. x \<le> y) xs) < p * length xs)"

lemma sum_list_unat_bound: "sum_list (map unat (v::u64 list)) \<le> length v * (2 ^ 64 - 1)"
proof (induction v)
  case (Cons x v)
  have "unat x \<le> 2 ^ 64 - 1" using unsigned_less [of x, where 'a = nat] by simp
  with Cons show ?case by simp
qed simp

lemma unat_sum_u128:
  assumes "length v < 2 ^ 64"
  shows "unat (sum_u128 v) = sum_list (map unat v)"
  using assms
proof (induction v)
  case Nil
  then show ?case by (simp add: sum_u128_def)
next
  case (Cons x v)
  have "sum_list (map unat (x # v)) \<le> length (x # v) * (2 ^ 64 - 1)"
    by (rule sum_list_unat_bound)
  also have "\<dots> \<le> 2 ^ 64 * (2 ^ 64 - 1)"
    using Cons.prems by (intro mult_right_mono) auto
  also have "\<dots> < 2 ^ LENGTH(128)" by simp
  finally have lt: "unat x + sum_list (map unat v) < 2 ^ LENGTH(128)" by simp
  have ux: "unat (ucast x :: u128) = unat x"
    by (rule unat_ucast_up) simp
  have "sum_u128 (x # v) = ucast x + sum_u128 v" by (simp add: sum_u128_def)
  then have "unat (sum_u128 (x # v)) = (unat x + sum_list (map unat v)) mod 2 ^ LENGTH(128)"
    using Cons ux by (simp only: unat_word_ariths) simp
  with lt show ?case by simp
qed

lemma pct_index_exact:
  assumes "0 < n" "unat p * n < 2 ^ 32" "1 \<le> unat p" "unat p \<le> 100"
  shows "unat (pct_index p (of_nat n)) = (unat p * n + 99) div 100 - 1"
    and "(unat p * n + 99) div 100 - 1 < n"
proof -
  have "n \<le> unat p * n" using assms(3) by simp
  then have n32: "n < 2 ^ 32" using assms(2) by linarith
  then have un: "unat (of_nat n :: usize) = n"
    by (simp add: unat_of_nat)
  have up: "unat (ucast p :: usize) = unat p"
    using assms(4) by (intro unat_ucast_down) simp
  have prod: "unat (ucast p * (of_nat n) :: usize) = unat p * n"
    using assms(2) un up by (simp add: unat_word_ariths)
  have "unat (pct_rank p (of_nat n)) = (unat p * n + 99) div 100"
    using prod by (simp add: pct_rank_def unat_div_ceil)
  moreover have n1: "unat ((of_nat n :: usize) - 1) = n - 1"
    using un assms(1) by (simp add: unat_sub word_le_nat_alt)
  moreover have "(unat p * n + 99) div 100 \<le> n"
  proof -
    have "unat p * n \<le> 100 * n" using assms(4) by simp
    then show ?thesis by linarith
  qed
  ultimately show "unat (pct_index p (of_nat n)) = (unat p * n + 99) div 100 - 1"
    and "(unat p * n + 99) div 100 - 1 < n"
    using assms(1) by (auto simp: pct_index_def unat_min)
qed

lemma pct_sort_nth:
  assumes "xs \<noteq> []" "unat p * length xs < 2 ^ 32" "1 \<le> unat p" "unat p \<le> 100"
  shows "pct (sort xs) p = sort xs ! ((unat p * length xs + 99) div 100 - 1)"
  using pct_index_exact(1) [of "length xs" p] assms by (simp add: pct_def)

lemma pct_nearest_rank:
  assumes "xs \<noteq> []" "unat p * length xs < 2 ^ 32" "1 \<le> unat p" "unat p \<le> 100"
  shows "nearest_rank (unat p) xs (pct (sort xs) p)"
proof -
  define n where "n = length xs"
  define k where "k = (unat p * n + 99) div 100 - 1"
  have q: "pct (sort xs) p = sort xs ! k"
    using pct_sort_nth [OF assms] by (simp add: k_def n_def)
  have k: "k < length (sort xs)"
    using pct_index_exact(2) [of n p] assms by (simp add: k_def n_def)
  define m where "m = unat p * n"
  have "1 \<le> m" using assms(1,3) by (simp add: n_def m_def Suc_le_eq)
  then have r: "m \<le> 100 * Suc k" "100 * k < m"
    unfolding k_def m_def [symmetric] by (rule ceil100_bounds)+
  have "Suc k \<le> length (filter (\<lambda>x. x \<le> sort xs ! k) (sort xs))"
    by (rule sorted_count_le_nth) (use k in auto)
  moreover have "length (filter (\<lambda>x. x \<le> y) (sort xs)) \<le> k" if "y < sort xs ! k" for y
    by (rule sorted_count_le_below) (use k that in auto)
  moreover have "sort xs ! k \<in> set xs"
    using k by (metis nth_mem set_sort)
  ultimately show ?thesis
    using r unfolding nearest_rank_def q by (fastforce simp: m_def n_def)
qed

lemma pct_mono:
  assumes "xs \<noteq> []" "unat q * length xs < 2 ^ 32" "1 \<le> unat p" "unat p \<le> unat q" "unat q \<le> 100"
  shows "pct (sort xs) p \<le> pct (sort xs) q"
proof -
  have pq: "unat p * length xs \<le> unat q * length xs" using assms(4) by simp
  have "(unat p * length xs + 99) div 100 - 1 \<le> (unat q * length xs + 99) div 100 - 1"
    using pq by (intro diff_le_mono div_le_mono) simp
  moreover have "(unat q * length xs + 99) div 100 - 1 < length xs"
    by (rule pct_index_exact(2)) (use assms in auto)
  moreover have "unat p * length xs < 2 ^ 32" using pq assms(2) by linarith
  ultimately show ?thesis
    using assms by (simp add: pct_sort_nth sorted_nth_mono)
qed

lemma from_samples_simps:
  assumes "xs \<noteq> []"
  shows "p50 (from_samples xs) = pct (sort xs) 50" "p90 (from_samples xs) = pct (sort xs) 90"
    "p99 (from_samples xs) = pct (sort xs) 99" "dist_min (from_samples xs) = sort xs ! 0"
    "p100 (from_samples xs) = sort xs ! (length xs - 1)"
    "dist_count (from_samples xs) = of_nat (length xs)"
    "mean (from_samples xs) = ucast (sum_u128 (sort xs) div of_nat (length xs))"
  using assms by (simp_all add: from_samples_def Let_def)

lemma sum_u128_sort: "sum_u128 (sort xs) = sum_u128 xs"
proof -
  have "mset (map ucast (sort xs)) = mset (map ucast xs :: u128 list)" by simp
  then show ?thesis unfolding sum_u128_def by (metis sum_mset_sum_list)
qed

lemma min_max_sort:
  assumes "x \<in> set xs"
  shows "sort xs ! 0 \<le> x" and "x \<le> sort xs ! (length xs - 1)"
proof -
  from assms have "x \<in> set (sort xs)" by simp
  then obtain i where i: "i < length xs" "x = sort xs ! i"
    by (metis in_set_conv_nth length_sort)
  then show "sort xs ! 0 \<le> x" by (simp add: sorted_nth_mono)
  from i have "i \<le> length xs - 1" by simp
  with i show "x \<le> sort xs ! (length xs - 1)" by (simp add: sorted_nth_mono)
qed

lemma pct_mem:
  assumes "xs \<noteq> []" "length xs < 2 ^ 32"
  shows "pct (sort xs) p \<in> set xs"
proof -
  let ?n = "of_nat (length xs) :: usize"
  have "unat ?n = length xs" using assms(2) by (simp add: unat_of_nat)
  moreover have "1 \<le> length xs" using assms(1) by (simp add: Suc_le_eq)
  ultimately have "unat (?n - 1) = length xs - 1" by (simp add: unat_sub word_le_nat_alt)
  then have "unat (pct_index p ?n) \<le> length xs - 1" by (simp add: pct_index_def unat_min)
  then have "unat (pct_index p ?n) < length (sort xs)" using assms(1) by (cases xs) auto
  then show ?thesis unfolding pct_def by (metis length_sort nth_mem set_sort)
qed

lemma unat_mean:
  assumes "xs \<noteq> []" "length xs < 2 ^ 64"
  shows "unat (mean (from_samples xs)) = sum_list (map unat xs) div length xs"
proof -
  have "sum_list (map unat xs) div length xs \<le> 2 ^ 64 - 1"
    using sum_list_unat_bound [of xs] assms(1)
    by (metis div_le_mono length_greater_0_conv nonzero_mult_div_cancel_left neq0_conv less_irrefl)
  then have lt: "sum_list (map unat xs) div length xs < 2 ^ LENGTH(64)" by simp
  have "unat (of_nat (length xs) :: u128) = length xs"
    using assms(2) by (simp add: unat_of_nat)
  then have "unat (sum_u128 xs div of_nat (length xs)) = sum_list (map unat xs) div length xs"
    using unat_sum_u128 [OF assms(2)] by (simp add: unat_div)
  with lt show ?thesis
    using assms(1) by (simp add: from_samples_simps sum_u128_sort unat_ucast_down)
qed

text \<open>
  C11. On up to 43383508 samples (the largest count whose product with 99 fits \<open>usize\<close> on the
  build target) the reported p50, p90 and p99 are the exact nearest-rank percentiles of the raw
  samples, p100 is their maximum and min their minimum.
\<close>

theorem from_samples_nearest_rank:
  assumes "xs \<noteq> []" "length xs \<le> 43383508"
  shows "nearest_rank 50 xs (p50 (from_samples xs)) \<and> nearest_rank 90 xs (p90 (from_samples xs))
    \<and> nearest_rank 99 xs (p99 (from_samples xs)) \<and> p100 (from_samples xs) = Max (set xs)
    \<and> dist_min (from_samples xs) = Min (set xs)"
proof (intro conjI)
  show "nearest_rank 50 xs (p50 (from_samples xs))"
    using pct_nearest_rank [of xs 50] assms by (simp add: from_samples_simps)
  show "nearest_rank 90 xs (p90 (from_samples xs))"
    using pct_nearest_rank [of xs 90] assms by (simp add: from_samples_simps)
  show "nearest_rank 99 xs (p99 (from_samples xs))"
    using pct_nearest_rank [of xs 99] assms by (simp add: from_samples_simps)
  have mem: "sort xs ! (length xs - 1) \<in> set xs" "sort xs ! 0 \<in> set xs"
    using assms(1) by (metis diff_less length_greater_0_conv length_sort less_numeral_extra(1) nth_mem set_sort)+
  show "p100 (from_samples xs) = Max (set xs)"
    using assms(1) mem min_max_sort(2) by (intro sym [OF Max_eqI]) (auto simp: from_samples_simps)
  show "dist_min (from_samples xs) = Min (set xs)"
    using assms(1) mem min_max_sort(1) by (intro sym [OF Min_eqI]) (auto simp: from_samples_simps)
qed

theorem from_samples_nearest_rank_witness:
  "nearest_rank 50 [5, 1, 3] (p50 (from_samples [5, 1, 3])) \<and> p50 (from_samples [5, 1, 3]) = 3
    \<and> p100 (from_samples [5, 1, 3]) = Max (set [5, 1, 3])"
proof -
  have "p50 (from_samples [5, 1, 3]) = 3" by code_simp
  then show ?thesis using from_samples_nearest_rank [of "[5, 1, 3]"] by simp
qed

text \<open>
  C12. The figures of any sample that fits the address space: p50, p90, p99 and the mean lie between the minimum and
  p100, and the mean is the rounded-down arithmetic mean, with no overflow in the sum. The percentiles are
  ordered among themselves for up to 43383508 samples (with more, \<open>p * n\<close> wraps and they may not be).
  Without samples all figures are zero.
\<close>

theorem from_samples_ordered:
  assumes "length xs < 2 ^ 32" "d = from_samples xs"
  shows "p50 d \<in> {dist_min d..p100 d} \<and> p90 d \<in> {dist_min d..p100 d} \<and> p99 d \<in> {dist_min d..p100 d}
    \<and> mean d \<in> {dist_min d..p100 d} \<and> unat (mean d) = sum_list (map unat xs) div length xs
    \<and> (length xs \<le> 43383508 \<longrightarrow> p50 d \<le> p90 d \<and> p90 d \<le> p99 d)"
proof (cases "xs = []")
  case True
  then show ?thesis using assms(2) by (simp add: from_samples_def dist_default_def)
next
  case False
  note d = from_samples_simps [OF False, folded assms(2)]
  have pct: "pct (sort xs) p \<in> {dist_min d..p100 d}" for p
    using min_max_sort [OF pct_mem [OF False assms(1)]] by (simp add: d)
  have m: "unat (mean d) = sum_list (map unat xs) div length xs"
    unfolding assms(2) using False assms(1) by (intro unat_mean) auto
  have "unat (dist_min d) * length xs \<le> sum_list (map unat xs)
      \<and> sum_list (map unat xs) \<le> unat (p100 d) * length xs"
    using min_max_sort by (intro sum_list_bounds) (auto simp: d simp flip: word_le_nat_alt)
  then have "unat (dist_min d) \<le> unat (mean d) \<and> unat (mean d) \<le> unat (p100 d)"
    unfolding m using False by (metis div_le_mono length_0_conv nonzero_mult_div_cancel_right)
  then have mean: "mean d \<in> {dist_min d..p100 d}" by (simp add: word_le_nat_alt)
  have "p50 d \<le> p90 d \<and> p90 d \<le> p99 d" if "length xs \<le> 43383508"
    unfolding d using that False by (intro conjI pct_mono; simp)
  then show ?thesis using pct [of 50] pct [of 90] pct [of 99] mean m by (simp add: d(1-3))
qed

theorem from_samples_ordered_witness:
  "dist_min (from_samples [7, 2, 2]) \<le> mean (from_samples [7, 2, 2])
    \<and> unat (mean (from_samples [7, 2, 2])) = 3 \<and> p90 (from_samples [7, 2, 2]) \<le> p99 (from_samples [7, 2, 2])"
  using from_samples_ordered [OF _ refl, of "[7, 2, 2]"] by simp

text \<open>
  One sample beyond that bound the rank computation wraps: for 43383509 samples the
  reported p99 is the minimum of the samples, so it falls below p50.
\<close>

theorem p99_wraps_on_wasm32:
  assumes "length xs = 43383509"
  shows "p99 (from_samples xs) = dist_min (from_samples xs)"
proof -
  have "xs \<noteq> []" using assms by auto
  moreover have "pct_index 99 (of_nat (length xs)) = 0"
    by (simp add: assms pct_index_def pct_rank_def div_ceil_def saturating_sub_def)
  ultimately show ?thesis by (simp add: from_samples_simps pct_def)
qed

theorem p99_wraps_on_wasm32_witness:
  "p99 (from_samples (0 # replicate 43383508 7)) = 0
    \<and> p50 (from_samples (0 # replicate 43383508 7)) = 7"
proof -
  let ?xs = "0 # replicate 43383508 7 :: u64 list"
  have s: "sort ?xs = ?xs" by (intro sorted_sort_id) (simp add: sorted_replicate)
  have l: "length ?xs = 43383509" by simp
  have i: "unat (pct_index 50 (of_nat (length ?xs))) = 21691754"
    unfolding l by (simp add: pct_index_def pct_rank_def div_ceil_def saturating_sub_def)
  have "p50 (from_samples ?xs) = ?xs ! 21691754"
    using i s by (simp add: from_samples_simps pct_def)
  also have "\<dots> = 7" by (simp add: nth_Cons')
  finally have "p50 (from_samples ?xs) = 7" .
  moreover have "dist_min (from_samples ?xs) = 0" using s by (simp add: from_samples_simps)
  ultimately show ?thesis using p99_wraps_on_wasm32 [OF l] by simp
qed

end
