(* ===== verification/Runtime.thy ===== *)
theory Runtime
  imports Prelude
begin

text \<open>
  What the code relies on of its asynchronous runtime. The control-socket helpers are generic in
  the stream (\<open>A: AsyncReadExt\<close>, \<open>A: AsyncWriteExt\<close>), so their models take the stream operations
  as arguments; the locales here state the documented contract of these operations. Two providers
  interpret them: a socket whose bytes arrive in arbitrary pieces, and the in-memory buffers of
  the unit tests of \<open>net_utils.rs\<close>. A third contract is that of the bounded channels between tasks; the
  channel to a worker (\<open>PerfTest\<close>) and the one to the controller (\<open>Controller\<close>) interpret it.
\<close>

unbundle bit_operations_syntax

section \<open>Big-endian and little-endian 32-bit integers\<close>

definition u32_be :: "u32 \<Rightarrow> byte list" where
  "u32_be w = [ucast (drop_bit 24 w), ucast (drop_bit 16 w), ucast (drop_bit 8 w), ucast w]"

definition be_u32 :: "byte list \<Rightarrow> u32" where
  "be_u32 bs = fold (\<lambda>b acc. push_bit 8 acc OR ucast b) bs 0"

definition u32_le :: "u32 \<Rightarrow> byte list" where
  "u32_le w = rev (u32_be w)"

definition le_u32 :: "byte list \<Rightarrow> u32" where
  "le_u32 bs = be_u32 (rev bs)"

lemma length_u32_be [simp]: "length (u32_be w) = 4"
  by (simp add: u32_be_def)

lemma length_u32_le [simp]: "length (u32_le w) = 4"
  by (simp add: u32_le_def)

lemma be_u32_be [simp]: "be_u32 (u32_be w) = w"
proof (rule bit_word_eqI)
  fix n assume "n < LENGTH(32)"
  then consider "n < 8" | "8 \<le> n" "n < 16" | "16 \<le> n" "n < 24" | "24 \<le> n" "n < 32"
    by fastforce
  then show "bit (be_u32 (u32_be w)) n = bit w n"
    by cases (auto simp: u32_be_def be_u32_def bit_simps)
qed

lemma le_u32_le [simp]: "le_u32 (u32_le w) = w"
  by (simp add: u32_le_def le_u32_def)

section \<open>Byte sources and sinks\<close>

datatype io_error = UnexpectedEof | ConnectionReset | BrokenPipe

text \<open>
  The reading side: \<open>rd_u32\<close> is \<open>read_u32\<close>, \<open>rd_buf n\<close> is \<open>take(n).read_buf\<close>. \<open>contents\<close>
  are the bytes still to arrive before the end of the stream, \<open>healthy\<close> says that no read fails.
  A read may return fewer bytes than asked for; it returns none only at the end of the stream.
\<close>

locale byte_source =
  fixes rd_u32 :: "'s \<Rightarrow> (io_error + u32) \<times> 's"
    and rd_buf :: "nat \<Rightarrow> 's \<Rightarrow> (io_error + byte list) \<times> 's"
    and contents :: "'s \<Rightarrow> byte list"
    and healthy :: "'s \<Rightarrow> bool"
  assumes rd_buf_law: "healthy s \<Longrightarrow> 0 < n \<Longrightarrow>
      \<exists>bs s'. rd_buf n s = (Inr bs, s') \<and> healthy s' \<and> length bs \<le> n
        \<and> contents s = bs @ contents s' \<and> (bs = [] \<longrightarrow> contents s = [])"
    and rd_u32_law: "healthy s \<Longrightarrow> 4 \<le> length (contents s) \<Longrightarrow>
      \<exists>s'. rd_u32 s = (Inr (be_u32 (take 4 (contents s))), s') \<and> healthy s'
        \<and> contents s' = drop 4 (contents s)"
    and rd_u32_eof: "healthy s \<Longrightarrow> length (contents s) < 4 \<Longrightarrow>
      \<exists>e s'. rd_u32 s = (Inl e, s')"

text \<open>The writing side: \<open>wr_all\<close> is \<open>write_all\<close>, \<open>sent\<close> the bytes the peer will receive.\<close>

locale byte_sink =
  fixes wr_all :: "byte list \<Rightarrow> 's \<Rightarrow> (io_error + unit) \<times> 's"
    and sent :: "'s \<Rightarrow> byte list"
    and writable :: "'s \<Rightarrow> bool"
  assumes wr_all_law: "writable s \<Longrightarrow>
      \<exists>s'. wr_all bs s = (Inr (), s') \<and> writable s' \<and> sent s' = sent s @ bs"

section \<open>A socket\<close>

text \<open>
  The receiving half of a TCP connection: the pieces in which the bytes arrive, in order, and the
  resets. The end of the list is the end of the stream; an empty piece is a wake-up without data.
\<close>

datatype piece = Data "byte list" | Reset

fun pieces_contents :: "piece list \<Rightarrow> byte list" where
  "pieces_contents [] = []"
| "pieces_contents (Data c # s) = c @ pieces_contents s"
| "pieces_contents (Reset # s) = []"

definition pieces_healthy :: "piece list \<Rightarrow> bool" where
  "pieces_healthy s \<longleftrightarrow> Reset \<notin> set s"

fun pieces_read :: "nat \<Rightarrow> piece list \<Rightarrow> (io_error + byte list) \<times> piece list" where
  "pieces_read n [] = (Inr [], [])"
| "pieces_read n (Reset # s) = (Inl ConnectionReset, Reset # s)"
| "pieces_read n (Data c # s) =
     (if c = [] then pieces_read n s else (Inr (take n c), Data (drop n c) # s))"

fun pieces_exact :: "nat \<Rightarrow> piece list \<Rightarrow> (io_error + byte list) \<times> piece list" where
  "pieces_exact n [] = (if n = 0 then (Inr [], []) else (Inl UnexpectedEof, []))"
| "pieces_exact n (Reset # s) =
     (if n = 0 then (Inr [], Reset # s) else (Inl ConnectionReset, Reset # s))"
| "pieces_exact n (Data c # s) =
     (if n \<le> length c then (Inr (take n c), Data (drop n c) # s)
      else (case pieces_exact (n - length c) s of
              (Inl e, s') \<Rightarrow> (Inl e, s')
            | (Inr bs, s') \<Rightarrow> (Inr (c @ bs), s')))"

definition pieces_u32 :: "piece list \<Rightarrow> (io_error + u32) \<times> piece list" where
  "pieces_u32 s = (case pieces_exact 4 s of
     (Inl e, s') \<Rightarrow> (Inl e, s') | (Inr bs, s') \<Rightarrow> (Inr (be_u32 bs), s'))"

lemma pieces_read_ok:
  "pieces_healthy s \<Longrightarrow> 0 < n \<Longrightarrow>
     \<exists>bs s'. pieces_read n s = (Inr bs, s') \<and> pieces_healthy s' \<and> length bs \<le> n
       \<and> pieces_contents s = bs @ pieces_contents s' \<and> (bs = [] \<longrightarrow> pieces_contents s = [])"
  by (induction n s rule: pieces_read.induct) (auto simp: pieces_healthy_def)

lemma pieces_exact_ok:
  "pieces_healthy s \<Longrightarrow> n \<le> length (pieces_contents s) \<Longrightarrow>
     \<exists>s'. pieces_exact n s = (Inr (take n (pieces_contents s)), s') \<and> pieces_healthy s'
       \<and> pieces_contents s' = drop n (pieces_contents s)"
proof (induction n s rule: pieces_exact.induct)
  case (3 n c s)
  show ?case
  proof (cases "n \<le> length c")
    case True
    then show ?thesis using 3 by (auto simp: pieces_healthy_def)
  next
    case False
    have "pieces_healthy s" "n - length c \<le> length (pieces_contents s)"
      using 3 by (auto simp: pieces_healthy_def)
    with 3(1) [OF False] obtain s' where "pieces_exact (n - length c) s
          = (Inr (take (n - length c) (pieces_contents s)), s')"
        "pieces_healthy s'" "pieces_contents s' = drop (n - length c) (pieces_contents s)"
      by auto
    then show ?thesis using False by simp
  qed
qed (auto simp: pieces_healthy_def)

lemma pieces_exact_eof:
  "pieces_healthy s \<Longrightarrow> length (pieces_contents s) < n \<Longrightarrow> \<exists>e s'. pieces_exact n s = (Inl e, s')"
proof (induction n s rule: pieces_exact.induct)
  case (3 n c s)
  then have "pieces_healthy s" "length (pieces_contents s) < n - length c" "\<not> n \<le> length c"
    by (auto simp: pieces_healthy_def)
  with 3(1) obtain e s' where "pieces_exact (n - length c) s = (Inl e, s')" by blast
  with \<open>\<not> n \<le> length c\<close> show ?case by simp
qed (auto simp: pieces_healthy_def)

interpretation socket: byte_source pieces_u32 pieces_read pieces_contents pieces_healthy
proof unfold_locales
  fix s :: "piece list"
  assume h: "pieces_healthy s"
  show "\<exists>s'. pieces_u32 s = (Inr (be_u32 (take 4 (pieces_contents s))), s') \<and> pieces_healthy s'
      \<and> pieces_contents s' = drop 4 (pieces_contents s)" if "4 \<le> length (pieces_contents s)"
    using pieces_exact_ok [OF h that] by (auto simp: pieces_u32_def)
  show "\<exists>e s'. pieces_u32 s = (Inl e, s')" if "length (pieces_contents s) < 4"
    using pieces_exact_eof [OF h that] by (auto simp: pieces_u32_def)
qed (rule pieces_read_ok)

section \<open>In-memory buffers\<close>

text \<open>
  The streams of the unit tests: \<open>Vec<u8>\<close> as the sink and \<open>&[u8]\<close> as the source.
\<close>

definition slice_read :: "nat \<Rightarrow> byte list \<Rightarrow> (io_error + byte list) \<times> byte list" where
  "slice_read n s = (Inr (take n s), drop n s)"

definition slice_u32 :: "byte list \<Rightarrow> (io_error + u32) \<times> byte list" where
  "slice_u32 s = (if 4 \<le> length s then (Inr (be_u32 (take 4 s)), drop 4 s)
     else (Inl UnexpectedEof, []))"

definition vec_write :: "byte list \<Rightarrow> byte list \<Rightarrow> (io_error + unit) \<times> byte list" where
  "vec_write bs s = (Inr (), s @ bs)"

interpretation slice: byte_source slice_u32 slice_read "\<lambda>s. s" "\<lambda>s. True"
  by unfold_locales (auto simp: slice_u32_def slice_read_def)

interpretation vec: byte_sink vec_write "\<lambda>s. s" "\<lambda>s. True"
  by unfold_locales (simp add: vec_write_def)

text \<open>The sending half of a TCP connection: the bytes sent, unless the connection is broken.\<close>

record tx_half =
  tx_sent :: "byte list"
  tx_broken :: bool

definition tx_write :: "byte list \<Rightarrow> tx_half \<Rightarrow> (io_error + unit) \<times> tx_half" where
  "tx_write bs s = (if tx_broken s then (Inl BrokenPipe, s)
     else (Inr (), s\<lparr>tx_sent := tx_sent s @ bs\<rparr>))"

interpretation tx: byte_sink tx_write tx_sent "\<lambda>s. \<not> tx_broken s"
  by unfold_locales (simp add: tx_write_def)

section \<open>Bounded channels\<close>

text \<open>
  The sending half of a bounded channel (\<open>tokio::sync::mpsc\<close>): \<open>try_send\<close> appends to what is queued while
  the channel is open and holds less than its capacity, and otherwise fails and leaves the queue alone.
\<close>

locale bounded_channel =
  fixes try_send :: "'m \<Rightarrow> 'c \<Rightarrow> ('e + unit) \<times> 'c"
    and queue :: "'c \<Rightarrow> 'm list"
    and closed :: "'c \<Rightarrow> bool"
    and capacity :: nat
  assumes accepts: "\<not> closed c \<Longrightarrow> length (queue c) < capacity \<Longrightarrow>
      \<exists>c'. try_send m c = (Inr (), c') \<and> queue c' = queue c @ [m] \<and> closed c' = closed c"
    and refuses: "closed c \<or> capacity \<le> length (queue c) \<Longrightarrow> \<exists>e. try_send m c = (Inl e, c)"
begin

lemma try_send_iff: "fst (try_send m c) = Inr () \<longleftrightarrow> \<not> closed c \<and> length (queue c) < capacity"
  using accepts [of c m] refuses [of c m] by (cases "closed c \<or> capacity \<le> length (queue c)") force+

lemma try_send_ok:
  assumes "try_send m c = (Inr (), c')"
  shows "\<not> closed c \<and> length (queue c) < capacity \<and> queue c' = queue c @ [m]"
  using assms try_send_iff [of m c] accepts [of c m] by auto

lemma queue_try_send:
  "queue (snd (try_send m c)) = (if closed c then queue c else queue c @ take (capacity - length (queue c)) [m])"
  using accepts [of c m] refuses [of c m] by (cases "closed c \<or> capacity \<le> length (queue c)") auto

lemma closed_try_send: "closed (snd (try_send m c)) = closed c"
  using accepts [of c m] refuses [of c m] by (cases "closed c \<or> capacity \<le> length (queue c)") auto

text \<open>
  A burst: many senders send before anything is received. Exactly the first messages that fit are kept, in
  their order; \<open>prepare\<close> is what a sender does to the rest of the state first.
\<close>

lemma burst:
  assumes "\<And>x c. queue (prepare x c) = queue c" "\<And>x c. closed (prepare x c) = closed c" "\<not> closed c"
  shows "queue (fold (\<lambda>x c. snd (try_send (enc x) (prepare x c))) xs c)
    = queue c @ take (capacity - length (queue c)) (map enc xs)"
  using assms(3)
proof (induction xs arbitrary: c)
  case (Cons x xs)
  let ?c = "snd (try_send (enc x) (prepare x c))"
  have "\<not> closed ?c" "queue ?c = queue c @ take (capacity - length (queue c)) [enc x]"
    using Cons.prems assms(1,2) by (simp_all add: queue_try_send closed_try_send)
  then show ?case
    using Cons.IH [of ?c] by (cases "capacity - length (queue c)") (auto simp: diff_Suc split: nat.splits)
qed simp

end

end
