(* ===== verification/Protocol.thy ===== *)
theory Protocol
  imports Stats Runtime
begin

text \<open>
  The control protocol of the p2 crate: \<open>common/consts.rs\<close>, \<open>common/opts.rs\<close>,
  \<open>common/data.rs\<close> and \<open>common/control.rs\<close>. Strings are lists of bytes.
\<close>

section \<open>Constants\<close>

definition INTERNAL_PROT_BUFFER :: nat where
  "INTERNAL_PROT_BUFFER = 5"

text \<open>The protocol timeout is ten seconds, here in nanoseconds.\<close>

definition PROTOCOL_TIMEOUT :: nat where
  "PROTOCOL_TIMEOUT = 10 * 1000000000"

definition MB :: usize where
  "MB = 1024 * 1024"

definition MAX_CONTROL_MESSAGE :: u32 where
  "MAX_CONTROL_MESSAGE = 20 * MB"

definition DEFAULT_BLOCK_SIZE :: usize where
  "DEFAULT_BLOCK_SIZE = 2 * MB"

definition MESSAGE_LENGTH_SIZE_BYTES :: nat where
  "MESSAGE_LENGTH_SIZE_BYTES = 4"

lemma MAX_CONTROL_MESSAGE_value [simp]: "MAX_CONTROL_MESSAGE = 20971520"
  by (simp add: MAX_CONTROL_MESSAGE_def MB_def)

section \<open>Options and test parameters\<close>

record client_opts =
  opt_client :: "string option"
  opt_length :: "usize option"
  opt_socket_buffers :: "usize option"
  opt_time :: u64
  opt_parallel :: u16
  bidir :: bool
  reverse :: bool
  opt_latency :: bool

datatype role = Server | Client

record test_parameters =
  direction :: direction
  omit_seconds :: u32
  time_seconds :: u64
  parallel :: u16
  block_size :: usize
  client_version :: string
  socket_buffers :: "usize option"
  measure_latency :: bool

definition from_opts :: "client_opts \<Rightarrow> usize \<Rightarrow> test_parameters" where
  "from_opts opts default_block_size =
     \<lparr>direction = (if bidir opts then Bidirectional
                   else if reverse opts then ServerToClient else ClientToServer),
      omit_seconds = 0,
      time_seconds = opt_time opts,
      parallel = opt_parallel opts,
      block_size = (case opt_length opts of Some l \<Rightarrow> l | None \<Rightarrow> default_block_size),
      client_version = ''0.2.9'',
      socket_buffers = opt_socket_buffers opts,
      measure_latency = opt_latency opts\<rparr>"

section \<open>Messages\<close>

datatype server_error = AccessDenied string | CannotAcceptStream string

datatype client_error = CannotCreateStream string

datatype state =
    TestStart
  | CreateStreams string
  | Running
  | ExchangeResults
  | DisplayResults

datatype client_message =
    Hello string
  | SendParameters test_parameters
  | ClientSendResults test_results

datatype server_message =
    Welcome
  | SetState state
  | ServerSendResults test_results

datatype client_envelope = ClientMessage client_message | ClientEnvelopeError client_error

datatype server_envelope = ServerMessage server_message | ServerEnvelopeError server_error

section \<open>Errors\<close>

text \<open>
  The values of \<open>anyhow::Error\<close> the code makes: a typed error of either side, an I/O or JSON
  error passed on by \<open>?\<close>, a message built by \<open>bail!\<close> or \<open>anyhow!\<close>, a lapsed timeout, a full
  channel, and an error wrapped by \<open>context\<close>. \<open>Panicked\<close> is not a value of that type: it marks
  the paths on which an assertion or an \<open>unwrap\<close> fails.
\<close>

datatype any_error =
    ServerErr server_error
  | ClientErr client_error
  | IoErr io_error
  | JsonErr
  | UnusuallyLarge u32 u32
  | ClosedByPeer
  | UnexpectedFromClient client_message
  | UnexpectedFromServer server_message
  | WrongWelcome client_message
  | NegotiationFailed any_error
  | TimedOut
  | ChannelFull
  | ChannelTerminated
  | RandomFailed string
  | NoStartSignal
  | JoinFailed
  | Context string any_error
  | Panicked

text \<open>\<open>downcast_ref\<close> looks through the context layers; \<open>NegotiationFailed\<close> only prints its cause.\<close>

fun downcast_server :: "any_error \<Rightarrow> server_error option" where
  "downcast_server (ServerErr e) = Some e"
| "downcast_server (Context c e) = downcast_server e"
| "downcast_server _ = None"

fun downcast_client :: "any_error \<Rightarrow> client_error option" where
  "downcast_client (ClientErr e) = Some e"
| "downcast_client (Context c e) = downcast_client e"
| "downcast_client _ = None"

definition to_server_error :: "any_error + 'a \<Rightarrow> server_error option" where
  "to_server_error r = (case r of Inl e \<Rightarrow> downcast_server e | Inr _ \<Rightarrow> None)"

definition to_client_error :: "any_error + 'a \<Rightarrow> client_error option" where
  "to_client_error r = (case r of Inl e \<Rightarrow> downcast_client e | Inr _ \<Rightarrow> None)"

definition with_context :: "string \<Rightarrow> any_error + 'a \<Rightarrow> any_error + 'a" where
  "with_context c r = (case r of Inl e \<Rightarrow> Inl (Context c e) | Inr x \<Rightarrow> Inr x)"

lemma to_server_error_with_context [simp]:
  "to_server_error (with_context c r) = to_server_error r"
  by (cases r) (simp_all add: to_server_error_def with_context_def)

lemma to_client_error_with_context [simp]:
  "to_client_error (with_context c r) = to_client_error r"
  by (cases r) (simp_all add: to_client_error_def with_context_def)

end
