(* ===== verification/PerfTest.thy ===== *)
theory PerfTest
  imports Protocol
begin

text \<open>
  \<open>common/perf_test.rs\<close>: the state of one test run, shared by both roles, and the handles of its
  stream workers (\<open>StreamWorkerRef\<close>, \<open>StreamWorker\<close> and \<open>WorkerMessage\<close> of
  \<open>common/stream_worker.rs\<close>).

  A control message is either read or written as a whole (theory \<open>Framing\<close>), so the control socket
  appears here at the level of messages: the messages written on it so far, and whether writing
  fails. What is read from it is an argument of the operation that reads. The mutex around the
  state does not appear in the operations, which hold it while they read or write the state; theory
  \<open>Interleave\<close> makes it explicit.
\<close>

section \<open>Worker handles\<close>

datatype worker_message = StartLoad | Terminate

text \<open>A TCP connection is known by a number.\<close>

type_synonym tcp_stream = nat

record stream_worker =
  worker_id :: nat
  worker_stream :: tcp_stream
  worker_params :: test_parameters
  is_sending :: bool

text \<open>
  The channel to a worker is bounded: it holds the messages not yet received, at most
  \<open>INTERNAL_PROT_BUFFER\<close>, and is closed once the worker has ended. The worker itself stands for
  the task behind the join handle.
\<close>

record stream_worker_ref =
  channel :: "worker_message list"
  channel_closed :: bool
  task :: stream_worker

definition worker_try_send ::
    "worker_message \<Rightarrow> stream_worker_ref \<Rightarrow> (any_error + unit) \<times> stream_worker_ref" where
  "worker_try_send m w =
     (if channel_closed w then (Inl ChannelTerminated, w)
      else if INTERNAL_PROT_BUFFER \<le> length (channel w) then (Inl ChannelFull, w)
      else (Inr (), w\<lparr>channel := channel w @ [m]\<rparr>))"

interpretation worker_channel: bounded_channel worker_try_send channel channel_closed INTERNAL_PROT_BUFFER
  by unfold_locales (auto simp: worker_try_send_def)

section \<open>The test\<close>

datatype wire_message = ToServer client_message | ToClient server_message

record perf_test =
  client_address :: "string option"
  cookie :: string
  test_state :: state
  control_sent :: "wire_message list"
  control_broken :: bool
  test_role :: role
  params :: test_parameters
  streams :: "(nat \<times> stream_worker_ref) list"
  num_send_streams :: u16
  num_receive_streams :: u16

definition control_send :: "wire_message \<Rightarrow> perf_test \<Rightarrow> (any_error + unit) \<times> perf_test" where
  "control_send m t =
     (if control_broken t then (Inl (IoErr BrokenPipe), t)
      else (Inr (), t\<lparr>control_sent := control_sent t @ [m]\<rparr>))"

definition perf_test_new ::
    "string option \<Rightarrow> string \<Rightarrow> wire_message list \<times> bool \<Rightarrow> role \<Rightarrow> test_parameters \<Rightarrow> perf_test" where
  "perf_test_new address ck control_socket r p =
     (let (send0, receive0) =
        (case direction p of
           ClientToServer \<Rightarrow> (parallel p, 0)
         | ServerToClient \<Rightarrow> (0, parallel p)
         | Bidirectional \<Rightarrow> (parallel p, parallel p));
          (send, receive) =
        (case r of Server \<Rightarrow> (receive0, send0) | Client \<Rightarrow> (send0, receive0))
      in \<lparr>client_address = address, cookie = ck, test_state = TestStart,
          control_sent = fst control_socket, control_broken = snd control_socket,
          test_role = r, params = p, streams = [],
          num_send_streams = send, num_receive_streams = receive\<rparr>)"

definition set_state :: "state \<Rightarrow> perf_test \<Rightarrow> (any_error + unit) \<times> perf_test" where
  "set_state s t =
     (if test_role t = Server then
        (case control_send (ToClient (SetState s)) t of
           (Inl e, t') \<Rightarrow> (Inl (Context ''Cannot send the state to the client'' e), t')
         | (Inr _, t') \<Rightarrow> (Inr (), t'\<lparr>test_state := s\<rparr>))
      else (Inr (), t\<lparr>test_state := s\<rparr>))"

definition get_state_clone :: "perf_test \<Rightarrow> state" where
  "get_state_clone t = test_state t"

text \<open>The number of data streams both ends wait for: a sum of two \<open>u16\<close>, which wraps.\<close>

definition total_needed_streams :: "perf_test \<Rightarrow> nat" where
  "total_needed_streams t = unat (num_send_streams t + num_receive_streams t)"

section \<open>Lemmas\<close>

lemma set_state_server:
  "\<not> control_broken t \<Longrightarrow> test_role t = Server \<Longrightarrow> set_state s t =
     (Inr (), t\<lparr>control_sent := control_sent t @ [ToClient (SetState s)], test_state := s\<rparr>)"
  by (simp add: set_state_def control_send_def)

lemma set_state_client:
  "test_role t = Client \<Longrightarrow> set_state s t = (Inr (), t\<lparr>test_state := s\<rparr>)"
  by (simp add: set_state_def)

lemma set_state_broken:
  "control_broken t \<Longrightarrow> test_role t = Server \<Longrightarrow>
     set_state s t = (Inl (Context ''Cannot send the state to the client'' (IoErr BrokenPipe)), t)"
  by (simp add: set_state_def control_send_def)

lemma set_state_cases:
  obtains "control_broken t" "test_role t = Server"
      "set_state s t = (Inl (Context ''Cannot send the state to the client'' (IoErr BrokenPipe)), t)"
  | "\<not> control_broken t" "test_role t = Server"
      "set_state s t = (Inr (), t\<lparr>control_sent := control_sent t @ [ToClient (SetState s)], test_state := s\<rparr>)"
  | "test_role t = Client" "set_state s t = (Inr (), t\<lparr>test_state := s\<rparr>)"
  by (cases "test_role t"; cases "control_broken t";
      simp add: set_state_server set_state_client set_state_broken)

lemma set_state_frame:
  "set_state s t = (r, t') \<Longrightarrow> test_role t' = test_role t \<and> params t' = params t
     \<and> streams t' = streams t \<and> cookie t' = cookie t \<and> control_broken t' = control_broken t
     \<and> num_send_streams t' = num_send_streams t \<and> num_receive_streams t' = num_receive_streams t"
  by (rule set_state_cases [of t s]) auto

lemma perf_test_new_simps [simp]:
  "test_state (perf_test_new a c s r p) = TestStart"
  "streams (perf_test_new a c s r p) = []"
  "test_role (perf_test_new a c s r p) = r"
  "params (perf_test_new a c s r p) = p"
  "cookie (perf_test_new a c s r p) = c"
  "client_address (perf_test_new a c s r p) = a"
  "control_sent (perf_test_new a c s r p) = fst s"
  "control_broken (perf_test_new a c s r p) = snd s"
  by (auto simp: perf_test_new_def Let_def split: direction.splits role.splits prod.splits)

lemma perf_test_new_counts:
  "num_send_streams (perf_test_new a c s r p) =
     (if (r = Client) = (direction p = ClientToServer) \<or> direction p = Bidirectional
      then parallel p else 0)"
  "num_receive_streams (perf_test_new a c s r p) =
     (if (r = Client) = (direction p = ServerToClient) \<or> direction p = Bidirectional
      then parallel p else 0)"
  by (cases "direction p"; cases r; simp add: perf_test_new_def)+

lemma total_needed_streams_new:
  "total_needed_streams (perf_test_new a c s r p) =
     (if direction p = Bidirectional then unat (parallel p + parallel p) else unat (parallel p))"
  by (cases "direction p"; cases r; simp add: perf_test_new_def total_needed_streams_def)

text \<open>
  Both ends of a test compute the same number of data streams from the parameters they share,
  and what one end sends the other receives.
\<close>

theorem ends_agree_on_streams:
  "total_needed_streams (perf_test_new a c s Server p) = total_needed_streams (perf_test_new a' c' s' Client p)
    \<and> num_send_streams (perf_test_new a c s Server p) = num_receive_streams (perf_test_new a' c' s' Client p)
    \<and> num_receive_streams (perf_test_new a c s Server p) = num_send_streams (perf_test_new a' c' s' Client p)"
  by (cases "direction p"; simp add: total_needed_streams_new perf_test_new_counts)

text \<open>
  The count wraps: a bidirectional test with 32768 streams each way is taken to need no stream
  at all, on both ends.
\<close>

theorem bidirectional_count_wraps:
  assumes "direction p = Bidirectional" "parallel p = 32768"
  shows "total_needed_streams (perf_test_new a c s r p) = 0"
  using assms by (simp add: total_needed_streams_new)

theorem bidirectional_count_wraps_witness:
  "total_needed_streams (perf_test_new None ''k'' ([], False) Client
     (from_opts \<lparr>opt_client = Some ''h'', opt_length = None, opt_socket_buffers = None, opt_time = 10,
        opt_parallel = 32768, bidir = True, reverse = False, opt_latency = False\<rparr> DEFAULT_BLOCK_SIZE)) = 0"
  by (rule bidirectional_count_wraps) (simp_all add: from_opts_def)

end
