(* ===== verification/Controller.thy ===== *)
theory Controller
  imports PerfTest
begin

text \<open>
  \<open>controller.rs\<close>: the controller of one test, for both roles. Everything it awaits (a message on
  its channel, a message of the server, the join of a worker, a new connection) comes in as an
  argument; everything it does to the outside (control messages, worker channels, reports) is
  recorded in its state.
\<close>

section \<open>State\<close>

datatype controller_message = CreateStream tcp_stream | StreamTerminated nat

text \<open>What the controller prints.\<close>

datatype report =
    Header
  | Summary test_results test_results direction
  | LatencySummary test_results test_results
  | UnexpectedMessage server_message
  | Done

record controller =
  test :: perf_test
  mailbox :: "controller_message list"
  stream_results :: "(nat \<times> stream_stats) list"
  printed :: "report list"

definition controller_new :: "perf_test \<Rightarrow> controller" where
  "controller_new t = \<lparr>test = t, mailbox = [], stream_results = [], printed = []\<rparr>"

text \<open>\<open>try_send\<close> on the bounded channel to the controller.\<close>

definition controller_try_send ::
    "controller_message \<Rightarrow> controller \<Rightarrow> (any_error + unit) \<times> controller" where
  "controller_try_send m c =
     (if INTERNAL_PROT_BUFFER \<le> length (mailbox c) then (Inl ChannelFull, c)
      else (Inr (), c\<lparr>mailbox := mailbox c @ [m]\<rparr>))"

interpretation mailbox_channel: bounded_channel controller_try_send mailbox "\<lambda>c. False" INTERNAL_PROT_BUFFER
  by unfold_locales (auto simp: controller_try_send_def)

definition print :: "report \<Rightarrow> controller \<Rightarrow> controller" where
  "print r c = c\<lparr>printed := printed c @ [r]\<rparr>"

text \<open>
  What the environment supplies to one iteration of the loop: the connections the client opens,
  what a joined worker returned, whether it ended within the five seconds of
  \<open>collect_test_result\<close>, and the peer's answer in the exchange of results.
\<close>

datatype join_outcome = Joined "any_error + stream_stats" | JoinError

record dial =
  dial_connect :: "io_error + tcp_stream"
  dial_hello :: "any_error + unit"
  dial_reply :: "client_message \<Rightarrow> any_error + server_message"

record env =
  dials :: "dial list"
  joins :: "nat \<Rightarrow> join_outcome"
  in_time :: "nat \<Rightarrow> bool"
  from_server :: "any_error + server_message"
  from_client :: "any_error + client_message"

section \<open>Streams\<close>

definition create_and_register_stream_worker :: "tcp_stream \<Rightarrow> controller \<Rightarrow> controller" where
  "create_and_register_stream_worker stream c =
     (let t = test c;
          streams_created = length (streams t);
          is_sending0 = streams_created < unat (num_send_streams t);
          sending = (if test_role t = Server \<and> direction (params t) = Bidirectional
                     then \<not> is_sending0 else is_sending0);
          sid = streams_created;
          worker = \<lparr>worker_id = sid, worker_stream = stream, worker_params = params t,
                    is_sending = sending\<rparr>;
          worker_ref = \<lparr>channel = [], channel_closed = False, task = worker\<rparr>
      in c\<lparr>test := t\<lparr>streams := AList.update sid worker_ref (streams t)\<rparr>\<rparr>)"

definition accept_stream :: "tcp_stream \<Rightarrow> controller \<Rightarrow> (any_error + unit) \<times> controller" where
  "accept_stream stream c =
     (if test_role (test c) \<noteq> Server then (Inl Panicked, c)
      else
        let total = total_needed_streams (test c);
            c1 = create_and_register_stream_worker stream c
        in if length (streams (test c1)) = total then
             (case set_state Running (test c1) of (r, t) \<Rightarrow> (r, c1\<lparr>test := t\<rparr>))
           else (Inr (), c1))"

definition connect_data_stream :: "perf_test \<Rightarrow> dial \<Rightarrow> any_error + tcp_stream" where
  "connect_data_stream t d =
     (case client_address t of
        None \<Rightarrow> Inl Panicked
      | Some address \<Rightarrow>
          (case dial_connect d of
             Inl e \<Rightarrow> Inl (IoErr e)
           | Inr stream \<Rightarrow>
               (case dial_hello d of
                  Inl e \<Rightarrow> Inl e
                | Inr _ \<Rightarrow>
                    (case dial_reply d (Hello (cookie t)) of
                       Inl e \<Rightarrow> Inl e
                     | Inr _ \<Rightarrow> Inr stream))))"

text \<open>
  The loop of \<open>create_streams\<close> takes one element of \<open>dials\<close> per connection; \<open>None\<close> means that it
  still waits for a connection when they are used up.
\<close>

fun create_streams_loop :: "dial list \<Rightarrow> controller \<Rightarrow> ((any_error + unit) \<times> controller) option" where
  "create_streams_loop ds c =
     (if length (streams (test c)) < total_needed_streams (test c) then
        (case ds of
           [] \<Rightarrow> None
         | d # ds' \<Rightarrow>
             (case connect_data_stream (test c) d of
                Inl e \<Rightarrow> Some (Inl e, c)
              | Inr stream \<Rightarrow>
                  create_streams_loop ds' (create_and_register_stream_worker stream c)))
      else Some (Inr (), c))"

declare create_streams_loop.simps [simp del]

definition create_streams :: "dial list \<Rightarrow> controller \<Rightarrow> ((any_error + unit) \<times> controller) option" where
  "create_streams ds c =
     (if test_role (test c) \<noteq> Client then Some (Inl Panicked, c) else create_streams_loop ds c)"

text \<open>A failed \<open>try_send\<close> is only logged.\<close>

definition broadcast_to_streams :: "worker_message \<Rightarrow> controller \<Rightarrow> controller" where
  "broadcast_to_streams m c =
     c\<lparr>test := (test c)\<lparr>streams :=
        map (\<lambda>(sid, w). (sid, snd (worker_try_send m w))) (streams (test c))\<rparr>\<rparr>"

section \<open>Messages\<close>

definition join_terminated ::
    "(nat \<Rightarrow> join_outcome) \<Rightarrow> nat \<Rightarrow> stream_worker_ref option \<Rightarrow> controller
      \<Rightarrow> any_error + controller" where
  "join_terminated join sid handle c =
     (case handle of
        None \<Rightarrow> Inr c
      | Some worker_ref \<Rightarrow>
          (case join sid of
             JoinError \<Rightarrow> Inl (Context (''Couldn't join an internal task for stream: '' @ decimal sid) JoinFailed)
           | Joined (Inr stats) \<Rightarrow>
               Inr (c\<lparr>stream_results := AList.update sid stats (stream_results c)\<rparr>)
           | Joined (Inl e) \<Rightarrow> Inr c))"

definition stream_terminated ::
    "(nat \<Rightarrow> join_outcome) \<Rightarrow> nat \<Rightarrow> controller \<Rightarrow> (any_error + unit) \<times> controller" where
  "stream_terminated join sid c =
     (let handle = map_of (streams (test c)) sid;
          c1 = c\<lparr>test := (test c)\<lparr>streams := AList.delete sid (streams (test c))\<rparr>\<rparr>
      in case join_terminated join sid handle c1 of
           Inl e \<Rightarrow> (Inl e, c1)
         | Inr c2 \<Rightarrow>
             (if streams (test c2) = [] \<and> test_role (test c2) = Server
              then (Inr (), c2\<lparr>test := snd (set_state ExchangeResults (test c2))\<rparr>)
              else (Inr (), c2)))"

definition process_internal_message ::
    "(nat \<Rightarrow> join_outcome) \<Rightarrow> controller_message option \<Rightarrow> controller
      \<Rightarrow> (any_error + unit) \<times> controller" where
  "process_internal_message join message c =
     (case message of
        None \<Rightarrow> (Inl Panicked, c)
      | Some (CreateStream stream) \<Rightarrow> accept_stream stream c
      | Some (StreamTerminated sid) \<Rightarrow> stream_terminated join sid c)"

definition process_server_message ::
    "any_error + server_message \<Rightarrow> controller \<Rightarrow> (any_error + unit) \<times> controller" where
  "process_server_message message c =
     (case with_context ''Server terminated!'' message of
        Inl e \<Rightarrow> (Inl e, c)
      | Inr (SetState s) \<Rightarrow> (case set_state s (test c) of (r, t) \<Rightarrow> (r, c\<lparr>test := t\<rparr>))
      | Inr m \<Rightarrow> (Inr (), print (UnexpectedMessage m) c))"

section \<open>Results\<close>

text \<open>
  The streams are drained in the map's order. A worker that does not end in time, that cannot be
  joined or that returned an error leaves no result.
\<close>

fun collect_streams ::
    "env \<Rightarrow> (nat \<times> stream_worker_ref) list \<Rightarrow> (nat \<times> stream_stats) list \<Rightarrow> (nat \<times> stream_stats) list" where
  "collect_streams ev [] results = results"
| "collect_streams ev ((sid, worker_ref) # ws) results =
     collect_streams ev ws
       (if in_time ev sid then
          (case joins ev sid of
             Joined (Inr stats) \<Rightarrow> AList.update sid stats results
           | Joined (Inl e) \<Rightarrow> results
           | JoinError \<Rightarrow> results)
        else results)"

definition collect_test_result :: "env \<Rightarrow> controller \<Rightarrow> test_results \<times> controller" where
  "collect_test_result ev c =
     (let results = collect_streams ev (streams (test c)) (stream_results c);
          c1 = c\<lparr>test := (test c)\<lparr>streams := []\<rparr>, stream_results := results\<rparr>
      in (\<lparr>results_streams = results\<rparr>, c1))"

text \<open>
  The client sends first and then reads; the server reads first, sends its own results whatever
  it read, and only then reports a wrong message.
\<close>

definition exchange_results ::
    "env \<Rightarrow> test_results \<Rightarrow> controller \<Rightarrow> (any_error + test_results) \<times> controller" where
  "exchange_results ev local_results c =
     (if test_role (test c) = Client then
        (case control_send (ToServer (ClientSendResults local_results)) (test c) of
           (Inl e, t) \<Rightarrow> (Inl e, c\<lparr>test := t\<rparr>)
         | (Inr _, t) \<Rightarrow>
             (case from_server ev of
                Inl e \<Rightarrow> (Inl e, c\<lparr>test := t\<rparr>)
              | Inr (ServerSendResults results) \<Rightarrow> (Inr results, c\<lparr>test := t\<rparr>)
              | Inr m \<Rightarrow> (Inl (UnexpectedFromServer m), c\<lparr>test := t\<rparr>)))
      else
        (case from_client ev of
           Inl e \<Rightarrow> (Inl e, c)
         | Inr m \<Rightarrow>
             (let remote_result =
                (case m of
                   ClientSendResults results \<Rightarrow> Inr results
                 | _ \<Rightarrow> Inl (UnexpectedFromClient m))
              in case control_send (ToClient (ServerSendResults local_results)) (test c) of
                   (Inl e, t) \<Rightarrow> (Inl e, c\<lparr>test := t\<rparr>)
                 | (Inr _, t) \<Rightarrow> (remote_result, c\<lparr>test := t\<rparr>))))"

definition print_results :: "test_results \<Rightarrow> test_results \<Rightarrow> controller \<Rightarrow> controller" where
  "print_results loc remote c =
     (let p = params (test c); c1 = print (Summary loc remote (direction p)) c
      in if measure_latency p then print (LatencySummary loc remote) c1 else c1)"

section \<open>The loop\<close>

text \<open>
  One pass through the part of the loop before it waits. \<open>Continue\<close> is the \<open>continue\<close> of the
  server's first state; \<open>Wait c s\<close> waits for the next message with \<open>s\<close> as the old state;
  \<open>Blocked\<close> is a client that waits for a connection.
\<close>

datatype turn =
    Continue controller
  | Wait controller state
  | Blocked controller
  | Finished controller
  | Failed any_error controller

definition controller_turn :: "env \<Rightarrow> state \<Rightarrow> controller \<Rightarrow> turn" where
  "controller_turn ev old_state c =
     (let t = test c; s = test_state t; r = test_role t
      in case s of
           TestStart \<Rightarrow>
             (if r = Server then
                (case set_state (CreateStreams (cookie t)) t of
                   (Inl e, t') \<Rightarrow> Failed e (c\<lparr>test := t'\<rparr>)
                 | (Inr _, t') \<Rightarrow> Continue (c\<lparr>test := t'\<rparr>))
              else Wait c s)
         | CreateStreams ck \<Rightarrow>
             (if r = Server then Wait c s
              else (case create_streams (dials ev) c of
                      None \<Rightarrow> Blocked c
                    | Some (Inl e, c') \<Rightarrow> Failed e c'
                    | Some (Inr _, c') \<Rightarrow> Wait c' s))
         | Running \<Rightarrow>
             (if old_state \<noteq> Running
              then Wait (broadcast_to_streams StartLoad (print Header c)) s
              else Wait c s)
         | ExchangeResults \<Rightarrow>
             (case collect_test_result ev (broadcast_to_streams Terminate c) of
                (loc, c1) \<Rightarrow>
                  (case exchange_results ev loc c1 of
                     (Inl e, c2) \<Rightarrow> Failed e c2
                   | (Inr remote, c2) \<Rightarrow> Finished (print Done (print_results loc remote c2))))
         | DisplayResults \<Rightarrow> Wait c s)"

lemma controller_turn_Continue:
  "controller_turn ev old c = Continue c' \<Longrightarrow>
     test_state (test c) = TestStart \<and> test_state (test c') \<noteq> TestStart"
  by (rule set_state_cases [of "test c" "CreateStreams (cookie (test c))"])
    (auto simp: controller_turn_def Let_def
      split: state.splits if_splits prod.splits sum.splits option.splits)

function controller_turns :: "env \<Rightarrow> state \<Rightarrow> controller \<Rightarrow> turn" where
  "controller_turns ev old_state c =
     (case controller_turn ev old_state c of
        Continue c' \<Rightarrow> controller_turns ev old_state c'
      | r \<Rightarrow> r)"
  by pat_completeness auto
termination
  by (relation "measure (\<lambda>(ev, old, c). if test_state (test c) = TestStart then 1 else 0)")
    (auto dest: controller_turn_Continue)

declare controller_turns.simps [simp del]

text \<open>
  The message the loop waits for. A server only waits for its own channel; a client selects
  between its channel and the control socket.
\<close>

datatype event =
    Internal "controller_message option"
  | ServerSays "any_error + server_message"

definition process_event :: "env \<Rightarrow> event \<Rightarrow> controller \<Rightarrow> (any_error + unit) \<times> controller" where
  "process_event ev e c =
     (case e of
        Internal message \<Rightarrow> process_internal_message (joins ev) message c
      | ServerSays message \<Rightarrow>
          (if test_role (test c) = Server then (Inr (), c) else process_server_message message c))"

fun controller_loop :: "env \<Rightarrow> state \<Rightarrow> controller \<Rightarrow> (event \<times> env) list \<Rightarrow> turn" where
  "controller_loop ev old_state c [] = controller_turns ev old_state c"
| "controller_loop ev old_state c ((e, ev') # es) =
     (case controller_turns ev old_state c of
        Wait c' s \<Rightarrow>
          (case process_event ev' e c' of
             (Inl err, c'') \<Rightarrow> Failed err c''
           | (Inr _, c'') \<Rightarrow> controller_loop ev' s c'' es)
      | r \<Rightarrow> r)"

definition run_controller :: "env \<Rightarrow> controller \<Rightarrow> (event \<times> env) list \<Rightarrow> turn" where
  "run_controller ev c es = controller_loop ev (test_state (test c)) c es"

section \<open>Registration\<close>

text \<open>
  Which streams an end sends on, the handle of a new worker, and the stream table after a list of
  connections has been registered.
\<close>

definition sends :: "perf_test \<Rightarrow> nat \<Rightarrow> bool" where
  "sends t i =
     (if test_role t = Server \<and> direction (params t) = Bidirectional
      then \<not> i < unat (num_send_streams t) else i < unat (num_send_streams t))"

definition fresh_ref :: "perf_test \<Rightarrow> nat \<Rightarrow> tcp_stream \<Rightarrow> stream_worker_ref" where
  "fresh_ref t i s = \<lparr>channel = [], channel_closed = False,
     task = \<lparr>worker_id = i, worker_stream = s, worker_params = params t, is_sending = sends t i\<rparr>\<rparr>"

definition enum_streams :: "perf_test \<Rightarrow> tcp_stream list \<Rightarrow> (nat \<times> stream_worker_ref) list" where
  "enum_streams t cs = map (\<lambda>i. (i, fresh_ref t i (cs ! i))) [0..<length cs]"

lemma fresh_ref_cong [simp]:
  "fresh_ref (t\<lparr>streams := x\<rparr>) = fresh_ref t" "fresh_ref (t\<lparr>test_state := s\<rparr>) = fresh_ref t"
  "fresh_ref (t\<lparr>control_sent := m\<rparr>) = fresh_ref t"
  by (simp_all add: fresh_ref_def sends_def fun_eq_iff)

lemma enum_streams_cong [simp]:
  "enum_streams (t\<lparr>streams := x\<rparr>) = enum_streams t" "enum_streams (t\<lparr>test_state := s\<rparr>) = enum_streams t"
  "enum_streams (t\<lparr>control_sent := m\<rparr>) = enum_streams t"
  by (simp_all add: enum_streams_def fun_eq_iff)

lemma total_needed_streams_cong [simp]:
  "total_needed_streams (t\<lparr>streams := x\<rparr>) = total_needed_streams t"
  "total_needed_streams (t\<lparr>test_state := s\<rparr>) = total_needed_streams t"
  "total_needed_streams (t\<lparr>control_sent := m\<rparr>) = total_needed_streams t"
  by (simp_all add: total_needed_streams_def)

lemma enum_streams_Nil [simp]: "enum_streams t [] = []"
  by (simp add: enum_streams_def)

lemma length_enum_streams [simp]: "length (enum_streams t cs) = length cs"
  by (simp add: enum_streams_def)

lemma keys_enum_streams [simp]: "keys (enum_streams t cs) = [0..<length cs]"
  by (simp add: enum_streams_def comp_def)

lemma enum_streams_snoc:
  "enum_streams t (cs @ [s]) = enum_streams t cs @ [(length cs, fresh_ref t (length cs) s)]"
  by (simp add: enum_streams_def nth_append cong: map_cong)

lemma map_of_enum_streams:
  "i < length cs \<Longrightarrow> map_of (enum_streams t cs) i = Some (fresh_ref t i (cs ! i))"
  by (intro map_of_is_SomeI) (auto simp: enum_streams_def comp_def)

lemma register_eq:
  "create_and_register_stream_worker s c =
     c\<lparr>test := (test c)\<lparr>streams := AList.update (length (streams (test c)))
        (fresh_ref (test c) (length (streams (test c))) s) (streams (test c))\<rparr>\<rparr>"
  by (simp add: create_and_register_stream_worker_def Let_def fresh_ref_def sends_def)

lemma register_enum:
  assumes "streams (test c) = enum_streams (test c) cs"
  shows "create_and_register_stream_worker s c =
     c\<lparr>test := (test c)\<lparr>streams := enum_streams (test c) (cs @ [s])\<rparr>\<rparr>"
  using assms by (simp add: register_eq enum_streams_snoc update_fresh)

lemma register_all:
  assumes "streams (test c) = enum_streams (test c) cs"
  shows "fold create_and_register_stream_worker ds c =
     c\<lparr>test := (test c)\<lparr>streams := enum_streams (test c) (cs @ ds)\<rparr>\<rparr>"
  using assms
proof (induction ds arbitrary: c cs)
  case Nil
  then show ?case by simp
next
  case (Cons d ds)
  let ?c = "create_and_register_stream_worker d c"
  have "streams (test ?c) = enum_streams (test ?c) (cs @ [d])"
    using Cons.prems by (simp add: register_enum)
  from Cons.IH [OF this] show ?case
    using Cons.prems by (simp add: register_enum)
qed

lemma sends_complement:
  assumes "i < unat (parallel p) \<or> direction p = Bidirectional"
  shows "sends (perf_test_new a c s Server p) i \<longleftrightarrow> \<not> sends (perf_test_new a' c' s' Client p) i"
  using assms by (cases "direction p") (auto simp: sends_def perf_test_new_counts)

text \<open>
  C13. The two ends pair up: after both have registered connections for the same parameters, the
  worker of stream \<open>i\<close> on the server sends exactly when the client's worker of stream \<open>i\<close>
  receives, and the client sends on every stream of a forward test and on the first half of a
  bidirectional one.
\<close>

theorem stream_roles_complementary:
  assumes "server = fold create_and_register_stream_worker conns
      (controller_new (perf_test_new a c s Server p))"
    and "client = fold create_and_register_stream_worker conns'
      (controller_new (perf_test_new a' c' s' Client p))"
    and "i < length conns" "i < length conns'"
    and "direction p \<noteq> Bidirectional \<Longrightarrow> i < unat (parallel p)"
  shows "\<exists>ws wc. map_of (streams (test server)) i = Some ws \<and> worker_stream (task ws) = conns ! i
    \<and> map_of (streams (test client)) i = Some wc \<and> worker_stream (task wc) = conns' ! i
    \<and> is_sending (task ws) = (\<not> is_sending (task wc))
    \<and> is_sending (task wc) = (direction p = ClientToServer
         \<or> direction p = Bidirectional \<and> i < unat (parallel p))"
proof -
  have "streams (test server) = enum_streams (perf_test_new a c s Server p) conns"
    "streams (test client) = enum_streams (perf_test_new a' c' s' Client p) conns'"
    using register_all [of "controller_new (perf_test_new a c s Server p)" "[]" conns]
      register_all [of "controller_new (perf_test_new a' c' s' Client p)" "[]" conns'] assms(1,2)
    by (simp_all add: controller_new_def)
  moreover have "sends (perf_test_new a' c' s' Client p) i = (direction p = ClientToServer
         \<or> direction p = Bidirectional \<and> i < unat (parallel p))"
    using assms(5) by (cases "direction p") (auto simp: sends_def perf_test_new_counts)
  ultimately show ?thesis
    using assms(3-5) sends_complement [of i p a c s a' c' s']
    by (auto simp: map_of_enum_streams fresh_ref_def)
qed

theorem stream_roles_complementary_witness:
  "\<exists>ws wc. map_of (streams (test (fold create_and_register_stream_worker [40, 41]
        (controller_new (perf_test_new None ''k'' ([], False) Server
          (from_opts \<lparr>opt_client = Some ''h'', opt_length = None, opt_socket_buffers = None, opt_time = 10,
             opt_parallel = 1, bidir = True, reverse = False, opt_latency = False\<rparr> DEFAULT_BLOCK_SIZE)))))) 1
      = Some ws \<and> is_sending (task ws)"
  using stream_roles_complementary [OF refl refl, where i = 1 and conns = "[40, 41]" and conns' = "[50, 51]"
      and a = None and c = "''k''" and s = "([], False)" and a' = None and c' = "''k''" and s' = "([], False)"
      and p = "from_opts \<lparr>opt_client = Some ''h'', opt_length = None, opt_socket_buffers = None, opt_time = 10,
             opt_parallel = 1, bidir = True, reverse = False, opt_latency = False\<rparr> DEFAULT_BLOCK_SIZE"]
  by (auto simp: from_opts_def)

section \<open>Facts both sessions use\<close>

lemma broadcast_frame [simp]:
  "test_role (test (broadcast_to_streams m c)) = test_role (test c)"
  "test_state (test (broadcast_to_streams m c)) = test_state (test c)"
  "control_broken (test (broadcast_to_streams m c)) = control_broken (test c)"
  "control_sent (test (broadcast_to_streams m c)) = control_sent (test c)"
  "params (test (broadcast_to_streams m c)) = params (test c)"
  "stream_results (broadcast_to_streams m c) = stream_results c"
  "mailbox (broadcast_to_streams m c) = mailbox c"
  "printed (broadcast_to_streams m c) = printed c"
  "keys (streams (test (broadcast_to_streams m c))) = keys (streams (test c))"
  by (simp_all add: broadcast_to_streams_def comp_def case_prod_unfold)

lemma broadcast_Nil:
  "streams (test c) = [] \<Longrightarrow> broadcast_to_streams m c = c"
  by (simp add: broadcast_to_streams_def)

lemma print_frame [simp]:
  "test (print r c) = test c" "stream_results (print r c) = stream_results c"
  "mailbox (print r c) = mailbox c" "printed (print r c) = printed c @ [r]"
  by (simp_all add: print_def)

lemma controller_loop_cong:
  "controller_turns ev old c = controller_turns ev old' c' \<Longrightarrow>
     controller_loop ev old c es = controller_loop ev old' c' es"
  by (cases es) auto

lemma turns_running_start:
  assumes "test_state (test c) = Running" "old \<noteq> Running"
  shows "controller_turns ev old c = Wait (broadcast_to_streams StartLoad (print Header c)) Running"
  using assms by (simp add: controller_turns.simps controller_turn_def Let_def)

lemma turns_running:
  assumes "test_state (test c) = Running"
  shows "controller_turns ev Running c = Wait c Running"
  using assms by (simp add: controller_turns.simps controller_turn_def Let_def)

text \<open>The results after a list of terminations, each with the environment its join runs in.\<close>

definition add_result :: "join_outcome \<Rightarrow> nat \<Rightarrow> (nat \<times> stream_stats) list \<Rightarrow> (nat \<times> stream_stats) list" where
  "add_result j sid r = (case j of Joined (Inr stats) \<Rightarrow> AList.update sid stats r | _ \<Rightarrow> r)"

fun gather :: "(nat \<times> env) list \<Rightarrow> (nat \<times> stream_stats) list \<Rightarrow> (nat \<times> stream_stats) list" where
  "gather [] r = r"
| "gather ((sid, ev) # ts) r = gather ts (add_result (joins ev sid) sid r)"

abbreviation term_events :: "(nat \<times> env) list \<Rightarrow> (event \<times> env) list" where
  "term_events ts \<equiv> map (\<lambda>(sid, ev). (Internal (Some (StreamTerminated sid)), ev)) ts"

lemma map_of_add_result:
  "map_of (add_result j sid r) k =
     (if k = sid then (case j of Joined (Inr st) \<Rightarrow> Some st | _ \<Rightarrow> map_of r k) else map_of r k)"
  by (auto simp: add_result_def update_conv' split: join_outcome.splits sum.splits)

lemma map_of_gather:
  "distinct (map fst ts) \<Longrightarrow> map_of (gather ts r) k =
     (case map_of ts k of
        Some ev \<Rightarrow> (case joins ev k of Joined (Inr st) \<Rightarrow> Some st | _ \<Rightarrow> map_of r k)
      | None \<Rightarrow> map_of r k)"
proof (induction ts r rule: gather.induct)
  case (2 sid ev ts r)
  then have IH: "map_of (gather ts (add_result (joins ev sid) sid r)) k =
      (case map_of ts k of
         Some ev' \<Rightarrow> (case joins ev' k of Joined (Inr st) \<Rightarrow> Some st
           | _ \<Rightarrow> map_of (add_result (joins ev sid) sid r) k)
       | None \<Rightarrow> map_of (add_result (joins ev sid) sid r) k)" by simp
  show ?case
  proof (cases "k = sid")
    case True
    then have "map_of ts k = None" using "2.prems" by (simp add: map_of_eq_None_iff)
    moreover have "map_of (add_result (joins ev sid) sid r) k =
        (case joins ev k of Joined (Inr st) \<Rightarrow> Some st | _ \<Rightarrow> map_of r k)"
      unfolding True by (simp add: map_of_add_result split: join_outcome.splits)
    ultimately show ?thesis using IH unfolding True by simp
  next
    case False
    then have eq: "map_of (add_result (joins ev sid) sid r) k = map_of r k"
      by (simp add: map_of_add_result)
    show ?thesis using IH False unfolding eq by simp
  qed
qed simp

lemma process_terminated:
  assumes "sid \<in> set (keys (streams (test c)))" "joins ev sid \<noteq> JoinError"
  shows "process_internal_message (joins ev) (Some (StreamTerminated sid)) c =
    (let c1 = c\<lparr>test := (test c)\<lparr>streams := AList.delete sid (streams (test c))\<rparr>,
                stream_results := add_result (joins ev sid) sid (stream_results c)\<rparr>
     in if streams (test c1) = [] \<and> test_role (test c) = Server
        then (Inr (), c1\<lparr>test := snd (set_state ExchangeResults (test c1))\<rparr>)
        else (Inr (), c1))"
proof -
  obtain w where "map_of (streams (test c)) sid = Some w"
    using assms(1) by (metis weak_map_of_SomeI map_of_eq_None_iff not_Some_eq set_map)
  then show ?thesis
    using assms(2)
    by (cases "joins ev sid") (auto simp: process_internal_message_def stream_terminated_def join_terminated_def Let_def
        add_result_def split: sum.splits)
qed

section \<open>Sample data for the witnesses\<close>

definition sample_env :: "stream_stats \<Rightarrow> test_results \<Rightarrow> env" where
  "sample_env st res = \<lparr>dials = [], joins = \<lambda>sid. Joined (Inr st), in_time = \<lambda>sid. True,
     from_server = Inr (ServerSendResults res), from_client = Inr (ClientSendResults res)\<rparr>"

definition sample_stats :: stream_stats where
  "sample_stats = \<lparr>sender = True, duration_millis = 10000, bytes_transferred = 4096, syscalls = 2,
     latency = None\<rparr>"

definition sample_params :: "direction \<Rightarrow> u16 \<Rightarrow> test_parameters" where
  "sample_params d n = \<lparr>direction = d, omit_seconds = 0, time_seconds = 10, parallel = n,
     block_size = DEFAULT_BLOCK_SIZE, client_version = ''0.2.9'', socket_buffers = None,
     measure_latency = False\<rparr>"

end
