(* ===== verification/ServerSession.thy ===== *)
theory ServerSession
  imports Controller
begin

text \<open>
  The controller of the server from the start of a test to its end: the accept phase, the load
  phase and the exchange of results.
\<close>

section \<open>One turn of the server\<close>

lemma turns_server_start:
  assumes "test_role (test c) = Server" "test_state (test c) = TestStart" "\<not> control_broken (test c)"
  shows "controller_turns ev old c =
    (let t = (test c)\<lparr>control_sent := control_sent (test c) @ [ToClient (SetState (CreateStreams (cookie (test c))))],
                      test_state := CreateStreams (cookie (test c))\<rparr>
     in Wait (c\<lparr>test := t\<rparr>) (CreateStreams (cookie (test c))))"
  using assms
  by (simp add: controller_turns.simps [of ev old] controller_turn_def Let_def set_state_server)

lemma turns_server_create:
  assumes "test_role (test c) = Server" "test_state (test c) = CreateStreams ck"
  shows "controller_turns ev old c = Wait c (CreateStreams ck)"
  using assms by (simp add: controller_turns.simps controller_turn_def Let_def)

lemma accept_stream_eq:
  assumes "test_role (test c) = Server" "\<not> control_broken (test c)"
    "streams (test c) = enum_streams (test c) cs"
  shows "accept_stream s c =
    (Inr (), c\<lparr>test :=
       (if Suc (length cs) = total_needed_streams (test c)
        then (test c)\<lparr>streams := enum_streams (test c) (cs @ [s]),
               control_sent := control_sent (test c) @ [ToClient (SetState Running)],
               test_state := Running\<rparr>
        else (test c)\<lparr>streams := enum_streams (test c) (cs @ [s])\<rparr>)\<rparr>)"
  using assms by (simp add: accept_stream_def Let_def register_enum set_state_server)

text \<open>The accept phase: the last of the needed streams, and no other, starts the load.\<close>

abbreviation accept_events :: "(tcp_stream \<times> env) list \<Rightarrow> (event \<times> env) list" where
  "accept_events ds \<equiv> map (\<lambda>(s, ev). (Internal (Some (CreateStream s)), ev)) ds"

lemma accept_phase:
  assumes "test_role (test c) = Server" "\<not> control_broken (test c)"
    "test_state (test c) = CreateStreams ck" "streams (test c) = enum_streams (test c) cs"
    "ds \<noteq> []" "length cs + length ds = total_needed_streams (test c)"
  shows "controller_loop ev old c (accept_events ds @ es) =
    controller_loop (snd (last ds)) (CreateStreams ck)
      (c\<lparr>test := (test c)\<lparr>streams := enum_streams (test c) (cs @ map fst ds),
           control_sent := control_sent (test c) @ [ToClient (SetState Running)],
           test_state := Running\<rparr>\<rparr>) es"
  using assms
proof (induction ds arbitrary: c cs ev old)
  case Nil
  then show ?case by simp
next
  case (Cons d ds)
  obtain s ev' where d: "d = (s, ev')" by (cases d)
  note step = accept_stream_eq [OF Cons.prems(1,2,4), of s]
  show ?case
  proof (cases "ds = []")
    case True
    then show ?thesis
      using Cons.prems d step
      by (simp add: turns_server_create process_event_def process_internal_message_def)
  next
    case False
    let ?c = "c\<lparr>test := (test c)\<lparr>streams := enum_streams (test c) (cs @ [s])\<rparr>\<rparr>"
    have neq: "Suc (length cs) \<noteq> total_needed_streams (test c)"
      using Cons.prems(6) False by (cases ds) auto
    then have "controller_loop ev old c (accept_events (d # ds) @ es)
        = controller_loop ev' (CreateStreams ck) ?c (accept_events ds @ es)"
      using Cons.prems d step
      by (simp add: turns_server_create process_event_def process_internal_message_def)
    also have "\<dots> = controller_loop (snd (last ds)) (CreateStreams ck)
      (?c\<lparr>test := (test ?c)\<lparr>streams := enum_streams (test ?c) ((cs @ [s]) @ map fst ds),
           control_sent := control_sent (test ?c) @ [ToClient (SetState Running)],
           test_state := Running\<rparr>\<rparr>) es"
      by (rule Cons.IH) (use Cons.prems False in auto)
    finally show ?thesis using d False by simp
  qed
qed


text \<open>
  The termination phase: the last worker to end moves the test to the exchange of results.
\<close>

lemma terminate_phase:
  assumes "test_role (test c) = Server" "\<not> control_broken (test c)" "test_state (test c) = Running"
    "ts \<noteq> []" "distinct (map fst ts)" "set (keys (streams (test c))) = set (map fst ts)"
    "\<forall>(sid, ev') \<in> set ts. joins ev' sid \<noteq> JoinError"
  shows "controller_loop ev Running c (term_events ts @ es) =
    controller_loop (snd (last ts)) Running
      (c\<lparr>stream_results := gather ts (stream_results c),
         test := (test c)\<lparr>streams := [],
           control_sent := control_sent (test c) @ [ToClient (SetState ExchangeResults)],
           test_state := ExchangeResults\<rparr>\<rparr>) es"
  using assms
proof (induction ts arbitrary: c ev)
  case Nil
  then show ?case by simp
next
  case (Cons x ts)
  obtain sid ev' where x: "x = (sid, ev')" by (cases x)
  let ?m = "AList.delete sid (streams (test c))"
  have keys: "set (keys ?m) = set (map fst ts)"
    using Cons.prems(5,6) x by (auto simp: set_keys_delete simp del: set_map)
  have step: "process_internal_message (joins ev') (Some (StreamTerminated sid)) c =
      (let c1 = c\<lparr>test := (test c)\<lparr>streams := ?m\<rparr>,
                stream_results := add_result (joins ev' sid) sid (stream_results c)\<rparr>
       in if streams (test c1) = [] \<and> test_role (test c) = Server
          then (Inr (), c1\<lparr>test := snd (set_state ExchangeResults (test c1))\<rparr>)
          else (Inr (), c1))"
    by (rule process_terminated) (use Cons.prems x in auto)
  show ?case
  proof (cases "ts = []")
    case True
    then have "?m = []" using keys by (simp flip: set_map)
    then show ?thesis
      using Cons.prems x True step
      by (simp add: turns_running process_event_def Let_def set_state_server)
  next
    case False
    then have "?m \<noteq> []" using keys by auto
    let ?c = "c\<lparr>test := (test c)\<lparr>streams := ?m\<rparr>,
        stream_results := add_result (joins ev' sid) sid (stream_results c)\<rparr>"
    have "controller_loop ev Running c (term_events (x # ts) @ es)
        = controller_loop ev' Running ?c (term_events ts @ es)"
      using Cons.prems x \<open>?m \<noteq> []\<close> step
      by (simp add: turns_running process_event_def Let_def)
    also have "\<dots> = controller_loop (snd (last ts)) Running
      (?c\<lparr>stream_results := gather ts (stream_results ?c),
         test := (test ?c)\<lparr>streams := [],
           control_sent := control_sent (test ?c) @ [ToClient (SetState ExchangeResults)],
           test_state := ExchangeResults\<rparr>\<rparr>) es"
      by (rule Cons.IH) (use Cons.prems False keys x in auto)
    finally show ?thesis using x False by simp
  qed
qed


lemma turns_server_exchange:
  assumes "test_role (test c) = Server" "test_state (test c) = ExchangeResults"
    "\<not> control_broken (test c)" "streams (test c) = []"
    "from_client ev = Inr (ClientSendResults remote)"
  shows "\<exists>c'. controller_turns ev old c = Finished c'
    \<and> control_sent (test c') = control_sent (test c)
        @ [ToClient (ServerSendResults \<lparr>results_streams = stream_results c\<rparr>)]
    \<and> printed c' = printed c
        @ [Summary \<lparr>results_streams = stream_results c\<rparr> remote (direction (params (test c)))]
        @ (if measure_latency (params (test c))
           then [LatencySummary \<lparr>results_streams = stream_results c\<rparr> remote] else []) @ [Done]"
  using assms
  by (simp add: controller_turns.simps [of ev old] controller_turn_def broadcast_Nil
      collect_test_result_def Let_def exchange_results_def control_send_def print_results_def)

definition fresh_server :: "string \<Rightarrow> wire_message list \<Rightarrow> test_parameters \<Rightarrow> controller" where
  "fresh_server ck sent0 p = controller_new (perf_test_new None ck (sent0, False) Server p)"

text \<open>The server when the load has just started on the connections \<open>cs\<close>.\<close>

definition server_running :: "string \<Rightarrow> wire_message list \<Rightarrow> test_parameters \<Rightarrow> tcp_stream list \<Rightarrow> controller" where
  "server_running ck sent0 p cs =
     (let c = fresh_server ck sent0 p; t = test c
      in broadcast_to_streams StartLoad (print Header (c\<lparr>test := t\<lparr>streams := enum_streams t cs,
           control_sent := sent0 @ map ToClient [SetState (CreateStreams ck), SetState Running],
           test_state := Running\<rparr>\<rparr>)))"

lemma server_running_simps [simp]:
  "test_role (test (server_running ck sent0 p cs)) = Server"
  "test_state (test (server_running ck sent0 p cs)) = Running"
  "control_broken (test (server_running ck sent0 p cs)) = False"
  "params (test (server_running ck sent0 p cs)) = p"
  "control_sent (test (server_running ck sent0 p cs))
     = sent0 @ map ToClient [SetState (CreateStreams ck), SetState Running]"
  "keys (streams (test (server_running ck sent0 p cs))) = [0..<length cs]"
  "printed (server_running ck sent0 p cs) = [Header]"
  "stream_results (server_running ck sent0 p cs) = []"
  by (simp_all add: server_running_def fresh_server_def controller_new_def Let_def)

lemma server_load_phase:
  assumes "conns \<noteq> []" "length conns = total_needed_streams (test (fresh_server ck sent0 p))"
  shows "run_controller ev (fresh_server ck sent0 p) (accept_events conns @ es)
    = controller_loop (snd (last conns)) Running (server_running ck sent0 p (map fst conns)) es"
proof -
  let ?c = "fresh_server ck sent0 p"
  define c1 where "c1 = ?c\<lparr>test := (test ?c)\<lparr>
      control_sent := sent0 @ [ToClient (SetState (CreateStreams ck))], test_state := CreateStreams ck\<rparr>\<rparr>"
  define c2 where "c2 = c1\<lparr>test := (test c1)\<lparr>streams := enum_streams (test c1) (map fst conns),
      control_sent := control_sent (test c1) @ [ToClient (SetState Running)], test_state := Running\<rparr>\<rparr>"
  have c0: "test_role (test ?c) = Server" "test_state (test ?c) = TestStart" "\<not> control_broken (test ?c)"
      "cookie (test ?c) = ck" "control_sent (test ?c) = sent0" "streams (test ?c) = []"
    by (simp_all add: fresh_server_def controller_new_def)
  have c1: "test_role (test c1) = Server" "\<not> control_broken (test c1)" "test_state (test c1) = CreateStreams ck"
      "streams (test c1) = enum_streams (test c1) []" "total_needed_streams (test c1) = length conns"
    using c0 assms(2) by (simp_all add: c1_def)
  have start: "controller_turns e old ?c = Wait c1 (CreateStreams ck)" for e old
    using turns_server_start [OF c0(1-3)] c0 by (simp add: c1_def Let_def)
  obtain s0 e0 conns' where cs: "conns = (s0, e0) # conns'" using assms(1) by (cases conns) auto
  have "run_controller ev ?c (accept_events conns @ es) = controller_loop ev TestStart c1 (accept_events conns @ es)"
    using c0 by (simp add: run_controller_def cs start turns_server_create [OF c1(1,3)])
  also have "\<dots> = controller_loop (snd (last conns)) (CreateStreams ck) c2 es"
    using accept_phase [OF c1(1-4) assms(1)] c1(5) by (simp add: c2_def)
  also have "\<dots> = controller_loop (snd (last conns)) Running (broadcast_to_streams StartLoad (print Header c2)) es"
    by (rule controller_loop_cong) (simp add: turns_running turns_running_start c2_def)
  also have "broadcast_to_streams StartLoad (print Header c2) = server_running ck sent0 p (map fst conns)"
    by (simp add: server_running_def c2_def c1_def Let_def)
  finally show ?thesis .
qed

lemma server_finish_phase:
  assumes "test_role (test c) = Server" "\<not> control_broken (test c)" "test_state (test c) = Running"
    and "ts \<noteq> []" "distinct (map fst ts)" "set (keys (streams (test c))) = set (map fst ts)"
    and "\<forall>(sid, ev') \<in> set ts. joins ev' sid \<noteq> JoinError"
    and "from_client (snd (last ts)) = Inr (ClientSendResults remote)"
    and "loc = \<lparr>results_streams = gather ts (stream_results c)\<rparr>"
  shows "\<exists>c'. controller_loop ev Running c (term_events ts) = Finished c'
    \<and> control_sent (test c') = control_sent (test c) @ map ToClient [SetState ExchangeResults, ServerSendResults loc]
    \<and> printed c' = printed c @ [Summary loc remote (direction (params (test c)))]
        @ (if measure_latency (params (test c)) then [LatencySummary loc remote] else []) @ [Done]"
proof -
  let ?c = "c\<lparr>stream_results := gather ts (stream_results c), test := (test c)\<lparr>streams := [],
      control_sent := control_sent (test c) @ [ToClient (SetState ExchangeResults)], test_state := ExchangeResults\<rparr>\<rparr>"
  have "controller_loop ev Running c (term_events ts) = controller_turns (snd (last ts)) Running ?c"
    using terminate_phase [OF assms(1-7), of ev "[]"] by simp
  then show ?thesis
    using turns_server_exchange [of ?c "snd (last ts)" remote Running] assms(1,2,8) by (simp add: assms(9) cong: if_cong)
qed

text \<open>Both phases: a test on the server from its first to its last message.\<close>

lemma server_session:
  assumes "conns \<noteq> []" "length conns = total_needed_streams (test (fresh_server ck sent0 p))"
    and "distinct (map fst terms)" "set (map fst terms) = {..<length conns}"
    and "\<forall>(sid, ev') \<in> set terms. joins ev' sid \<noteq> JoinError"
    and "from_client (snd (last terms)) = Inr (ClientSendResults remote)"
    and "loc = \<lparr>results_streams = gather terms []\<rparr>"
  shows "\<exists>c'. run_controller ev (fresh_server ck sent0 p) (accept_events conns @ term_events terms) = Finished c'
    \<and> control_sent (test c') = sent0 @ map ToClient [SetState (CreateStreams ck), SetState Running,
         SetState ExchangeResults, ServerSendResults loc]
    \<and> printed c' = [Header, Summary loc remote (direction p)]
        @ (if measure_latency p then [LatencySummary loc remote] else []) @ [Done]"
proof -
  let ?c = "server_running ck sent0 p (map fst conns)"
  have ts: "terms \<noteq> []" using assms(1,4) by auto
  have "set (keys (streams (test ?c))) = set (map fst terms)"
    unfolding assms(4) by (simp add: lessThan_atLeast0 del: set_map)
  then have "\<exists>c'. controller_loop (snd (last conns)) Running ?c (term_events terms) = Finished c'
      \<and> control_sent (test c') = control_sent (test ?c) @ map ToClient [SetState ExchangeResults, ServerSendResults loc]
      \<and> printed c' = printed ?c @ [Summary loc remote (direction p)]
        @ (if measure_latency p then [LatencySummary loc remote] else []) @ [Done]"
    using server_finish_phase [of ?c terms remote loc "snd (last conns)"] ts assms(3,5-7) by (auto cong: if_cong)
  then show ?thesis using server_load_phase [OF assms(1,2)] by (auto cong: if_cong)
qed

text \<open>
  C2. A test on the server runs to its end: once as many data streams as needed have connected
  and every worker has ended, in any order, the controller returns; it has told the client to
  create streams, to run and to exchange results, once each and in this order; it sends its
  results last, and they are exactly what the workers that ended without an error returned.
\<close>

theorem server_session_completes:
  assumes "conns \<noteq> []" "length conns = total_needed_streams (test (fresh_server ck sent0 p))"
    and "distinct (map fst terms)" "set (map fst terms) = {..<length conns}"
    and "\<forall>(sid, ev') \<in> set terms. joins ev' sid \<noteq> JoinError"
    and "from_client (snd (last terms)) = Inr (ClientSendResults remote)"
  shows "\<exists>c' loc. run_controller ev (fresh_server ck sent0 p) (accept_events conns @ term_events terms) = Finished c'
    \<and> control_sent (test c') = sent0 @ map ToClient [SetState (CreateStreams ck), SetState Running,
         SetState ExchangeResults, ServerSendResults loc]
    \<and> printed c' = [Header, Summary loc remote (direction p)]
        @ (if measure_latency p then [LatencySummary loc remote] else []) @ [Done]
    \<and> (\<forall>sid. map_of (results_streams loc) sid =
         (case map_of terms sid of
            Some ev' \<Rightarrow> (case joins ev' sid of Joined (Inr stats) \<Rightarrow> Some stats | _ \<Rightarrow> None)
          | None \<Rightarrow> None))"
proof -
  let ?loc = "\<lparr>results_streams = gather terms []\<rparr>"
  have "map_of (results_streams ?loc) sid =
         (case map_of terms sid of
            Some ev' \<Rightarrow> (case joins ev' sid of Joined (Inr stats) \<Rightarrow> Some stats | _ \<Rightarrow> None)
          | None \<Rightarrow> None)" for sid
    by (simp add: map_of_gather [OF assms(3)] split: option.split join_outcome.split sum.split)
  then show ?thesis using server_session [OF assms refl, of ev] by blast
qed

theorem server_session_completes_witness:
  "\<exists>c' loc. run_controller (sample_env sample_stats test_results_default)
      (fresh_server ''k'' [ToClient Welcome] (sample_params Bidirectional 1))
      (accept_events [(10, sample_env sample_stats test_results_default),
                      (11, sample_env sample_stats test_results_default)]
       @ term_events [(1, sample_env sample_stats test_results_default),
                      (0, sample_env sample_stats test_results_default)]) = Finished c'
    \<and> printed c' = [Header, Summary loc test_results_default Bidirectional, Done]
    \<and> map_of (results_streams loc) 1 = Some sample_stats"
proof -
  let ?e = "sample_env sample_stats test_results_default"
  have "total_needed_streams (test (fresh_server ''k'' [ToClient Welcome] (sample_params Bidirectional 1))) = 2"
    by (simp add: fresh_server_def controller_new_def total_needed_streams_new sample_params_def)
  then show ?thesis
    using server_session_completes [of "[(10, ?e), (11, ?e)]" "''k''" "[ToClient Welcome]" "sample_params Bidirectional 1"
        "[(1, ?e), (0, ?e)]" test_results_default ?e]
    by (auto simp: sample_env_def sample_params_def lessThan_Suc numeral_2_eq_2)
qed

end
