(* ===== verification/Server.thy ===== *)
theory Server
  imports ServerSession
begin

text \<open>
  \<open>server.rs\<close>: the accept loop, the negotiation of a new test, and the system of the accept loop,
  the controller task and the worker tasks that run interleaved on one thread.
\<close>

section \<open>Negotiation\<close>

text \<open>
  What the network supplies for an accepted connection: the result of the first read, whether the
  welcome can be written, and the result of reading the parameters (\<open>None\<close> when the protocol
  timeout lapses first).
\<close>

record inbound =
  inb_stream :: tcp_stream
  inb_first :: "any_error + client_message"
  inb_welcome :: "any_error + unit"
  inb_params :: "(any_error + client_message) option"

definition read_cookie :: "any_error + client_message \<Rightarrow> any_error + string" where
  "read_cookie r =
     (case r of
        Inr (Hello ck) \<Rightarrow> Inr ck
      | Inr e \<Rightarrow> Inl (WrongWelcome e)
      | Inl e \<Rightarrow> Inl (NegotiationFailed e))"

definition read_test_parameters :: "any_error + client_message \<Rightarrow> any_error + test_parameters" where
  "read_test_parameters r =
     (case r of
        Inl e \<Rightarrow> Inl e
      | Inr (SendParameters p) \<Rightarrow> Inr p
      | Inr e \<Rightarrow> Inl (UnexpectedFromClient e))"

definition create_test :: "inbound \<Rightarrow> any_error + perf_test" where
  "create_test inb =
     (case read_cookie (inb_first inb) of
        Inl e \<Rightarrow> Inl e
      | Inr ck \<Rightarrow>
          (case inb_welcome inb of
             Inl e \<Rightarrow> Inl e
           | Inr _ \<Rightarrow>
               (case inb_params inb of
                  None \<Rightarrow> Inl (Context ''Timed out waiting for the protocol negotiation!'' TimedOut)
                | Some r \<Rightarrow>
                    (case read_test_parameters r of
                       Inl e \<Rightarrow> Inl e
                     | Inr p \<Rightarrow> Inr (perf_test_new None ck ([ToClient Welcome], False) Server p)))))"

text \<open>Whether the welcome went out, which happens before the parameters are read.\<close>

definition welcomed :: "inbound \<Rightarrow> bool" where
  "welcomed inb \<longleftrightarrow> \<not> isl (read_cookie (inb_first inb)) \<and> \<not> isl (inb_welcome inb)"

section \<open>The accept loop\<close>

text \<open>
  The weak reference to the state of the test in flight can be upgraded exactly as long as its
  controller lives. The controller task is either spawned and not yet run, or waits for a message
  with some old state. \<open>detached\<close> are the worker tasks that still run although their handle has
  left the table of the test; \<open>replies\<close> is what was written to accepted connections, or in the
  case of a refusal tried to be: the code ignores whether that write succeeds.
\<close>

datatype phase = Spawned | Waiting state

record server =
  in_flight :: "(controller \<times> phase) option"
  detached :: "nat list"
  replies :: "(tcp_stream \<times> server_envelope) list"

definition reply :: "tcp_stream \<Rightarrow> server_envelope \<Rightarrow> server \<Rightarrow> server" where
  "reply s m srv = srv\<lparr>replies := replies srv @ [(s, m)]\<rparr>"

definition already_in_flight :: server_envelope where
  "already_in_flight = ServerEnvelopeError (AccessDenied ''Test already in-flight'')"

text \<open>One iteration: an \<open>Inl\<close> result is an error that \<open>?\<close> passes out of \<open>run_server\<close>.\<close>

definition serve_connection :: "inbound \<Rightarrow> server \<Rightarrow> (any_error + unit) \<times> server" where
  "serve_connection inb srv =
     (case in_flight srv of
        Some (ctrl, ph) \<Rightarrow>
          (case test_state (test ctrl) of
             CreateStreams ck \<Rightarrow>
               (case read_cookie (inb_first inb) of
                  Inl e \<Rightarrow> (Inl e, srv)
                | Inr client_cookie \<Rightarrow>
                    (if client_cookie = ck then
                       (case inb_welcome inb of
                          Inl e \<Rightarrow> (Inl e, srv)
                        | Inr _ \<Rightarrow>
                            (let srv1 = reply (inb_stream inb) (ServerMessage Welcome) srv
                             in case controller_try_send (CreateStream (inb_stream inb)) ctrl of
                                  (Inl e, _) \<Rightarrow> (Inl e, srv1)
                                | (Inr _, ctrl') \<Rightarrow> (Inr (), srv1\<lparr>in_flight := Some (ctrl', ph)\<rparr>)))
                     else (Inr (), reply (inb_stream inb) already_in_flight srv)))
           | _ \<Rightarrow> (Inr (), reply (inb_stream inb) already_in_flight srv))
      | None \<Rightarrow>
          (let srv1 = (if welcomed inb then reply (inb_stream inb) (ServerMessage Welcome) srv else srv)
           in case create_test inb of
                Inr t \<Rightarrow> (Inr (), srv1\<lparr>in_flight := Some (controller_new t, Spawned)\<rparr>)
              | Inl e \<Rightarrow> (Inr (), srv1)))"

text \<open>The loop ends without an error when \<open>accept\<close> fails, here at the end of the list.\<close>

fun run_server :: "inbound list \<Rightarrow> server \<Rightarrow> (any_error + unit) \<times> server" where
  "run_server [] srv = (Inr (), srv)"
| "run_server (inb # inbs) srv =
     (case serve_connection inb srv of
        (Inl e, srv') \<Rightarrow> (Inl e, srv')
      | (Inr _, srv') \<Rightarrow> run_server inbs srv')"

section \<open>Tasks\<close>

text \<open>
  The running tasks whose handle is dropped when the table changes: the entry is gone or belongs
  to another task.
\<close>

definition dropped ::
    "(nat \<times> stream_worker_ref) list \<Rightarrow> (nat \<times> stream_worker_ref) list \<Rightarrow> nat list" where
  "dropped old new =
     map fst (filter (\<lambda>(k, w). \<not> channel_closed w \<and>
       (case map_of new k of None \<Rightarrow> True | Some w' \<Rightarrow> task w' \<noteq> task w)) old)"

text \<open>The controller task runs until it waits again, or ends and drops the test.\<close>

definition settle :: "controller \<Rightarrow> turn \<Rightarrow> server \<Rightarrow> server" where
  "settle c0 r srv =
     (case r of
        Wait c s \<Rightarrow> srv\<lparr>in_flight := Some (c, Waiting s),
            detached := detached srv @ dropped (streams (test c0)) (streams (test c))\<rparr>
      | _ \<Rightarrow> srv\<lparr>in_flight := None, detached := []\<rparr>)"

definition run_controller_task :: "env \<Rightarrow> server \<Rightarrow> server" where
  "run_controller_task ev srv =
     (case in_flight srv of
        Some (c, Spawned) \<Rightarrow> settle c (controller_turns ev (test_state (test c)) c) srv
      | Some (c, Waiting s) \<Rightarrow>
          (case mailbox c of
             [] \<Rightarrow> srv
           | m # ms \<Rightarrow>
               (case process_internal_message (joins ev) (Some m) (c\<lparr>mailbox := ms\<rparr>) of
                  (Inl e, c') \<Rightarrow> settle c (Failed e c') srv
                | (Inr _, c') \<Rightarrow> settle c (controller_turns ev s c') srv))
      | None \<Rightarrow> srv)"

text \<open>
  A worker task ends: its channel is closed, and it tries to tell the controller; when the
  controller's channel is full the notification is only logged.
\<close>

definition end_worker :: "nat \<Rightarrow> controller \<Rightarrow> controller" where
  "end_worker sid c =
     snd (controller_try_send (StreamTerminated sid)
       (c\<lparr>test := (test c)\<lparr>streams :=
            map (\<lambda>(k, w). (k, if k = sid then w\<lparr>channel_closed := True\<rparr> else w)) (streams (test c))\<rparr>\<rparr>))"

definition live_worker :: "nat \<Rightarrow> controller \<Rightarrow> bool" where
  "live_worker sid c =
     (case map_of (streams (test c)) sid of None \<Rightarrow> False | Some w \<Rightarrow> \<not> channel_closed w)"

text \<open>
  A step of the system: the accept loop serves a connection (the label), the controller task runs
  once, a worker ends, with its handle in the table or not, or the control connection breaks. The
  history of a run is the list of the connections served.
\<close>

inductive server_step :: "server \<Rightarrow> inbound option \<Rightarrow> server \<Rightarrow> bool" where
  accept: "serve_connection inb srv = (Inr (), srv') \<Longrightarrow> server_step srv (Some inb) srv'"
| controller: "server_step srv None (run_controller_task ev srv)"
| worker: "in_flight srv = Some (c, ph) \<Longrightarrow> live_worker sid c \<Longrightarrow>
    server_step srv None (srv\<lparr>in_flight := Some (end_worker sid c, ph)\<rparr>)"
| orphan: "in_flight srv = Some (c, ph) \<Longrightarrow> detached srv = xs @ sid # ys \<Longrightarrow>
    server_step srv None (srv\<lparr>detached := xs @ ys,
      in_flight := Some (snd (controller_try_send (StreamTerminated sid) c), ph)\<rparr>)"
| break: "in_flight srv = Some (c, ph) \<Longrightarrow>
    server_step srv None (srv\<lparr>in_flight := Some (c\<lparr>test := (test c)\<lparr>control_broken := True\<rparr>\<rparr>, ph)\<rparr>)"

inductive_cases server_step_acceptE: "server_step s (Some inb) t"

definition server_init :: server where
  "server_init = \<lparr>in_flight = None, detached = [], replies = []\<rparr>"

inductive server_trace :: "inbound list \<Rightarrow> server \<Rightarrow> bool" where
  init: "server_trace [] server_init"
| served: "server_trace h s \<Longrightarrow> server_step s (Some inb) t \<Longrightarrow> server_trace (h @ [inb]) t"
| internal: "server_trace h s \<Longrightarrow> server_step s None t \<Longrightarrow> server_trace h t"

text \<open>Induction over the runs, with one case for each kind of step.\<close>

lemma server_trace_steps [consumes 1, case_names init accept controller worker orphan break]:
  assumes "server_trace h srv" "P [] server_init"
    and "\<And>h srv inb srv'. server_trace h srv \<Longrightarrow> P h srv \<Longrightarrow> serve_connection inb srv = (Inr (), srv')
      \<Longrightarrow> P (h @ [inb]) srv'"
    and "\<And>h srv ev. server_trace h srv \<Longrightarrow> P h srv \<Longrightarrow> P h (run_controller_task ev srv)"
    and "\<And>h srv c ph sid. server_trace h srv \<Longrightarrow> P h srv \<Longrightarrow> in_flight srv = Some (c, ph) \<Longrightarrow> live_worker sid c
      \<Longrightarrow> P h (srv\<lparr>in_flight := Some (end_worker sid c, ph)\<rparr>)"
    and "\<And>h srv c ph xs sid ys. server_trace h srv \<Longrightarrow> P h srv \<Longrightarrow> in_flight srv = Some (c, ph)
      \<Longrightarrow> detached srv = xs @ sid # ys \<Longrightarrow> P h (srv\<lparr>detached := xs @ ys,
        in_flight := Some (snd (controller_try_send (StreamTerminated sid) c), ph)\<rparr>)"
    and "\<And>h srv c ph. server_trace h srv \<Longrightarrow> P h srv \<Longrightarrow> in_flight srv = Some (c, ph)
      \<Longrightarrow> P h (srv\<lparr>in_flight := Some (c\<lparr>test := (test c)\<lparr>control_broken := True\<rparr>\<rparr>, ph)\<rparr>)"
  shows "P h srv"
  using assms(1)
proof (induction rule: server_trace.induct)
  case (served h s inb t)
  then show ?case by (auto elim!: server_step_acceptE intro: assms(3))
next
  case (internal h s t)
  from internal.hyps(2) show ?case
    by (cases rule: server_step.cases) (use internal assms(4-7) in auto)
qed (rule assms(2))

end
