(* ===== verification/ServerInv.thy ===== *)
theory ServerInv
  imports Server
begin

text \<open>
  Safety of the server: what its operations keep, an invariant of every reachable state of the
  accept loop, the controller task and the worker tasks, and what follows from it.
\<close>

section \<open>What the operations keep\<close>

definition connections :: "controller \<Rightarrow> tcp_stream set" where
  "connections c = {s. CreateStream s \<in> set (mailbox c)}
     \<union> (\<lambda>(k, w). worker_stream (task w)) ` set (streams (test c))"

lemma set_update_subset: "set (AList.update k v m) \<subseteq> insert (k, v) (set m)"
  by (induction m) auto

lemma set_delete_subset: "set (AList.delete k m) \<subseteq> set m"
  by (auto simp: AList.delete_eq)

lemma connections_register:
  "connections (create_and_register_stream_worker s c) \<subseteq> insert s (connections c)"
proof -
  let ?k = "length (streams (test c))"
  have "(\<lambda>(k, w). worker_stream (task w)) ` set (AList.update ?k (fresh_ref (test c) ?k s) (streams (test c)))
      \<subseteq> (\<lambda>(k, w). worker_stream (task w)) ` insert (?k, fresh_ref (test c) ?k s) (set (streams (test c)))"
    by (rule image_mono [OF set_update_subset])
  also have "\<dots> = insert s ((\<lambda>(k, w). worker_stream (task w)) ` set (streams (test c)))"
    by (simp add: fresh_ref_def)
  finally show ?thesis by (auto simp: connections_def register_eq)
qed

lemma connections_mono:
  "set (streams (test c')) \<subseteq> set (streams (test c)) \<Longrightarrow> set (mailbox c') \<subseteq> set (mailbox c) \<Longrightarrow>
     connections c' \<subseteq> connections c"
  unfolding connections_def by blast

lemma task_try_send [simp]: "task (snd (worker_try_send m w)) = task w"
  by (simp add: worker_try_send_def)

lemma connections_broadcast [simp]: "connections (broadcast_to_streams m c) = connections c"
  unfolding connections_def broadcast_to_streams_def by (simp add: image_image case_prod_unfold)

text \<open>Nothing but the state, the table and the messages sent ever changes in a test.\<close>

definition same_test :: "controller \<Rightarrow> controller \<Rightarrow> bool" where
  "same_test c c' \<longleftrightarrow> cookie (test c') = cookie (test c) \<and> params (test c') = params (test c)
     \<and> test_role (test c') = test_role (test c)"

lemma same_test_refl [simp]: "same_test c c"
  by (simp add: same_test_def)

lemma same_test_trans: "same_test a b \<Longrightarrow> same_test b c \<Longrightarrow> same_test a c"
  by (simp add: same_test_def)

lemma set_state_controller:
  assumes "set_state s (test c) = (r, t)"
  shows "same_test c (c\<lparr>test := t\<rparr>) \<and> connections (c\<lparr>test := t\<rparr>) = connections c
    \<and> test_state t \<in> {test_state (test c), s}"
  by (rule set_state_cases [of "test c" s]) (use assms in \<open>auto simp: same_test_def connections_def\<close>)

lemma accept_stream_frame:
  assumes "accept_stream s c = (r, c')"
  shows "same_test c c' \<and> mailbox c' = mailbox c \<and> connections c' \<subseteq> insert s (connections c)
    \<and> test_state (test c') \<in> {test_state (test c), Running}"
proof (cases "test_role (test c) = Server")
  case False
  then show ?thesis using assms by (auto simp: accept_stream_def)
next
  case True
  define c1 where "c1 = create_and_register_stream_worker s c"
  have c1: "same_test c c1" "connections c1 \<subseteq> insert s (connections c)" "mailbox c1 = mailbox c"
      "test_state (test c1) = test_state (test c)"
    using connections_register [of s c] by (simp_all add: c1_def register_eq same_test_def)
  show ?thesis
  proof (cases "length (streams (test c1)) = total_needed_streams (test c)")
    case eq: True
    obtain t where t: "set_state Running (test c1) = (r, t)" "c' = c1\<lparr>test := t\<rparr>"
      using assms True eq by (auto simp: accept_stream_def c1_def Let_def split: prod.splits)
    then show ?thesis
      using set_state_controller [OF t(1)] c1 by (auto dest: same_test_trans)
  next
    case neq: False
    then have "c' = c1" using assms True by (auto simp: accept_stream_def c1_def Let_def)
    with c1 show ?thesis by auto
  qed
qed

lemma terminated_cases:
  assumes "process_internal_message join (Some (StreamTerminated sid)) c = (r, c')"
    and "c1 = c\<lparr>test := (test c)\<lparr>streams := AList.delete sid (streams (test c))\<rparr>\<rparr>"
  shows "\<exists>res. c' = c1\<lparr>stream_results := res\<rparr>
    \<or> c' = c1\<lparr>stream_results := res, test := snd (set_state ExchangeResults (test c1))\<rparr>"
proof -
  have join: "\<exists>res. c2 = c1\<lparr>stream_results := res\<rparr>" if "join_terminated join sid handle c1 = Inr c2" for handle c2
  proof -
    have "\<exists>res. d = d\<lparr>stream_results := res\<rparr>" for d :: controller
      by (rule exI [of _ "stream_results d"]) simp
    with that show ?thesis
      unfolding join_terminated_def by (auto split: option.splits join_outcome.splits sum.splits)
  qed
  show ?thesis
  proof (cases "join_terminated join sid (map_of (streams (test c)) sid) c1")
    case (Inl e)
    then have "c' = c1\<lparr>stream_results := stream_results c1\<rparr>"
      using assms by (simp add: process_internal_message_def stream_terminated_def Let_def)
    then show ?thesis by blast
  next
    case (Inr c2)
    with join obtain res where res: "c2 = c1\<lparr>stream_results := res\<rparr>" by blast
    have "(if streams (test c2) = [] \<and> test_role (test c2) = Server
           then (Inr (), c2\<lparr>test := snd (set_state ExchangeResults (test c2))\<rparr>)
           else (Inr (), c2)) = (r, c')"
      using assms Inr by (simp add: process_internal_message_def stream_terminated_def)
    then show ?thesis by (auto simp: res split: if_splits)
  qed
qed

lemma terminated_frame:
  assumes "process_internal_message join (Some (StreamTerminated sid)) c = (r, c')"
  shows "same_test c c' \<and> mailbox c' = mailbox c \<and> connections c' \<subseteq> connections c
    \<and> test_state (test c') \<in> {test_state (test c), ExchangeResults}"
proof -
  define c1 where "c1 = c\<lparr>test := (test c)\<lparr>streams := AList.delete sid (streams (test c))\<rparr>\<rparr>"
  have "connections c1 \<subseteq> connections c"
    by (rule connections_mono) (simp_all add: c1_def set_delete_subset)
  then have c1: "same_test c c1" "connections c1 \<subseteq> connections c" "mailbox c1 = mailbox c"
      "test_state (test c1) = test_state (test c)"
    by (simp_all add: c1_def same_test_def)
  have res: "connections (d\<lparr>stream_results := x\<rparr>) = connections d"
      "connections (d\<lparr>stream_results := x, test := y\<rparr>) = connections (d\<lparr>test := y\<rparr>)"
      "same_test c (d\<lparr>stream_results := x\<rparr>) = same_test c d"
      "same_test c (d\<lparr>stream_results := x, test := y\<rparr>) = same_test c (d\<lparr>test := y\<rparr>)"
      for d :: controller and x y
    by (simp_all add: connections_def same_test_def)
  define t where "t = snd (set_state ExchangeResults (test c1))"
  have s: "same_test c1 (c1\<lparr>test := t\<rparr>)" "connections (c1\<lparr>test := t\<rparr>) = connections c1"
      "test_state t \<in> {test_state (test c1), ExchangeResults}"
    using set_state_controller [of ExchangeResults c1 _ t] by (auto simp: t_def prod_eq_iff)
  obtain x where "c' = c1\<lparr>stream_results := x\<rparr> \<or> c' = c1\<lparr>stream_results := x, test := t\<rparr>"
    using terminated_cases [OF assms c1_def] unfolding t_def by auto
  then show ?thesis
  proof
    assume "c' = c1\<lparr>stream_results := x\<rparr>"
    then show ?thesis using c1 by (simp add: res)
  next
    assume "c' = c1\<lparr>stream_results := x, test := t\<rparr>"
    then show ?thesis using c1 s same_test_trans [OF c1(1) s(1)] by (simp add: res)
  qed
qed

lemma turns_server:
  assumes "test_role (test c) = Server" "controller_turns ev old c = Wait c' s"
  shows "same_test c c' \<and> mailbox c' = mailbox c \<and> connections c' = connections c
    \<and> test_state (test c') = s \<and> s = (if test_state (test c) = TestStart
        then CreateStreams (cookie (test c)) else test_state (test c))
    \<and> s \<notin> {TestStart, ExchangeResults}"
proof (cases "test_state (test c)")
  case TestStart
  show ?thesis
  proof (cases "control_broken (test c)")
    case True
    then show ?thesis using assms TestStart
      by (simp add: controller_turns.simps [of ev old c] controller_turn_def Let_def set_state_broken)
  next
    case False
    then show ?thesis using assms TestStart
      by (auto simp: turns_server_start Let_def same_test_def connections_def)
  qed
next
  case Running
  let ?b = "broadcast_to_streams StartLoad (print Header c)"
  have b: "same_test c ?b" "connections ?b = connections c" "mailbox ?b = mailbox c"
      "test_state (test ?b) = Running"
  proof -
    show "connections ?b = connections c"
      unfolding connections_broadcast by (simp add: connections_def)
  qed (use Running in \<open>simp_all add: same_test_def broadcast_to_streams_def\<close>)
  have "c' = (if old = Running then c else ?b) \<and> s = Running"
    using assms(2) turns_running [of c ev] turns_running_start [of c old ev] Running
    by (cases "old = Running") simp_all
  then show ?thesis using b Running by (cases "old = Running") simp_all
next
  case ExchangeResults
  obtain loc c1 where "collect_test_result ev (broadcast_to_streams Terminate c) = (loc, c1)"
    by fastforce
  moreover obtain x c2 where "exchange_results ev loc c1 = (x, c2)" by fastforce
  ultimately have "controller_turn ev old c \<notin> range (\<lambda>(c, s). Wait c s) \<union> range Continue"
    using ExchangeResults by (cases x) (auto simp: controller_turn_def Let_def)
  then show ?thesis using assms(2)
    by (auto simp: controller_turns.simps [of ev old c] image_iff split: turn.splits)
next
  case (CreateStreams k)
  then show ?thesis using assms by (auto simp: turns_server_create)
next
  case DisplayResults
  then have "controller_turn ev old c = Wait c DisplayResults" by (simp add: controller_turn_def Let_def)
  then show ?thesis using assms DisplayResults by (auto simp: controller_turns.simps [of ev old c])
qed


section \<open>The invariant\<close>

definition flight_ok :: "inbound list \<Rightarrow> controller \<Rightarrow> phase \<Rightarrow> bool" where
  "flight_ok h c ph \<longleftrightarrow> test_role (test c) = Server \<and> length (mailbox c) \<le> INTERNAL_PROT_BUFFER
     \<and> (\<forall>s \<in> connections c. \<exists>inb \<in> set h. inb_stream inb = s
          \<and> inb_first inb = Inr (Hello (cookie (test c))))
     \<and> (case ph of
          Spawned \<Rightarrow> test_state (test c) = TestStart
        | Waiting s \<Rightarrow> test_state (test c) = s \<and> s \<in> {CreateStreams (cookie (test c)), Running})"

definition server_inv :: "inbound list \<Rightarrow> server \<Rightarrow> bool" where
  "server_inv h srv \<longleftrightarrow> (\<forall>c ph. in_flight srv = Some (c, ph) \<longrightarrow> flight_ok h c ph)"

lemma flight_ok_history: "flight_ok h c ph \<Longrightarrow> set h \<subseteq> set h' \<Longrightarrow> flight_ok h' c ph"
  unfolding flight_ok_def by blast

lemma reply_in_flight [simp]: "in_flight (reply s m srv) = in_flight srv"
  by (simp add: reply_def)

lemma controller_try_send_ok:
  assumes "controller_try_send m c = (Inr (), c')"
  shows "length (mailbox c) < INTERNAL_PROT_BUFFER \<and> c' = c\<lparr>mailbox := mailbox c @ [m]\<rparr>"
  using assms mailbox_channel.try_send_ok [OF assms] by (auto simp: controller_try_send_def)

lemma create_test_ok:
  assumes "create_test inb = Inr t"
  shows "\<exists>ck p. inb_first inb = Inr (Hello ck)
    \<and> t = perf_test_new None ck ([ToClient Welcome], False) Server p"
  using assms
  by (auto simp: create_test_def read_cookie_def split: sum.splits client_message.splits option.splits)

text \<open>What serving a connection does to the test in flight.\<close>

lemma serve_connection_cases:
  assumes "serve_connection inb srv = (Inr (), srv')"
  obtains (created) t where "in_flight srv = None" "create_test inb = Inr t"
      "in_flight srv' = Some (controller_new t, Spawned)"
  | (queued) c ph where "in_flight srv = Some (c, ph)" "length (mailbox c) < INTERNAL_PROT_BUFFER"
      "test_state (test c) \<noteq> TestStart"
      "inb_first inb = Inr (Hello (case test_state (test c) of CreateStreams ck \<Rightarrow> ck))"
      "\<exists>ck. test_state (test c) = CreateStreams ck"
      "in_flight srv' = Some (c\<lparr>mailbox := mailbox c @ [CreateStream (inb_stream inb)]\<rparr>, ph)"
  | (unchanged) "in_flight srv' = in_flight srv"
proof (cases "in_flight srv")
  case None
  then show ?thesis
    using assms that by (auto simp: serve_connection_def Let_def split: sum.splits)
next
  case (Some x)
  obtain c ph where x: "x = (c, ph)" by (cases x)
  show ?thesis
  proof (cases "test_state (test c)")
    case (CreateStreams ck)
    show ?thesis
    proof (cases "inb_first inb = Inr (Hello ck)")
      case True
      then obtain c' where "controller_try_send (CreateStream (inb_stream inb)) c = (Inr (), c')"
          "in_flight srv' = Some (c', ph)"
        using assms Some x CreateStreams
        by (auto simp: serve_connection_def read_cookie_def Let_def split: sum.splits prod.splits)
      then show ?thesis
        using that(2) [OF Some [unfolded x]] controller_try_send_ok CreateStreams True by auto
    next
      case False
      then have "in_flight srv' = in_flight srv"
        using assms Some x CreateStreams
        by (auto simp: serve_connection_def read_cookie_def Let_def
            split: sum.splits prod.splits client_message.splits if_splits)
      then show ?thesis by (rule that(3))
    qed
  qed (use assms Some x that(3) in \<open>auto simp: serve_connection_def\<close>)
qed

lemma accept_inv:
  assumes "serve_connection inb srv = (Inr (), srv')" "server_inv h srv"
  shows "server_inv (h @ [inb]) srv'"
  using assms(1)
proof (cases rule: serve_connection_cases)
  case (created t)
  then show ?thesis
    using create_test_ok [of inb t]
    by (auto simp: server_inv_def flight_ok_def controller_new_def connections_def)
next
  case (queued c ph)
  then obtain ck where ck: "test_state (test c) = CreateStreams ck" by blast
  have ok: "flight_ok h c ph" using assms(2) queued(1) by (simp add: server_inv_def)
  then have "ck = cookie (test c)" using ck by (auto simp: flight_ok_def split: phase.splits)
  moreover have "connections (c\<lparr>mailbox := mailbox c @ [CreateStream (inb_stream inb)]\<rparr>)
      = insert (inb_stream inb) (connections c)"
    by (auto simp: connections_def)
  ultimately show ?thesis
    using queued ck ok by (auto simp: server_inv_def flight_ok_def split: phase.splits)
next
  case unchanged
  then show ?thesis using assms(2) flight_ok_history [of h _ _ "h @ [inb]"] by (auto simp: server_inv_def)
qed

lemma process_message_frame:
  assumes "process_internal_message join (Some m) (c\<lparr>mailbox := ms\<rparr>) = (r, c')" "mailbox c = m # ms"
  shows "same_test c c' \<and> mailbox c' = ms \<and> connections c' \<subseteq> connections c
    \<and> test_state (test c') \<in> {test_state (test c), Running, ExchangeResults}"
proof -
  let ?c = "c\<lparr>mailbox := ms\<rparr>"
  have sub: "connections ?c \<subseteq> connections c" using assms(2) by (auto simp: connections_def)
  show ?thesis
  proof (cases m)
    case (CreateStream s)
    have "s \<in> connections c" using assms(2) CreateStream by (simp add: connections_def)
    moreover have "accept_stream s ?c = (r, c')"
      using assms(1) CreateStream by (simp add: process_internal_message_def)
    ultimately show ?thesis
      using accept_stream_frame [of s ?c r c'] sub by (auto simp: same_test_def)
  next
    case (StreamTerminated sid)
    then show ?thesis
      using terminated_frame [of join sid ?c r c'] assms(1) sub by (auto simp: same_test_def)
  qed
qed

lemma controller_task_inv:
  assumes "server_inv h srv"
  shows "server_inv h (run_controller_task ev srv)"
proof (cases "in_flight srv")
  case None
  then show ?thesis using assms by (simp add: run_controller_task_def server_inv_def)
next
  case (Some x)
  obtain c ph where x: "x = (c, ph)" by (cases x)
  have ok: "flight_ok h c ph" using assms Some x by (simp add: server_inv_def)
  have settled: "server_inv h (settle c (controller_turns ev old d) srv)"
    if "same_test c d" "connections d \<subseteq> connections c" "length (mailbox d) \<le> INTERNAL_PROT_BUFFER"
      "test_state (test d) \<in> {TestStart, CreateStreams (cookie (test c)), Running, ExchangeResults}" for d old
  proof -
    have role: "test_role (test d) = Server" using that ok by (simp add: same_test_def flight_ok_def)
    have "flight_ok h e (Waiting s)" if "controller_turns ev old d = Wait e s" for e s
      using turns_server [OF role that] \<open>same_test c d\<close> \<open>connections d \<subseteq> connections c\<close>
        \<open>length (mailbox d) \<le> INTERNAL_PROT_BUFFER\<close> \<open>test_state (test d) \<in> _\<close> ok
      by (auto simp: flight_ok_def same_test_def split: if_splits)
    then show ?thesis
      by (auto simp: settle_def server_inv_def split: turn.splits)
  qed
  show ?thesis
  proof (cases ph)
    case Spawned
    then show ?thesis
      using settled [of c "test_state (test c)"] ok Some x
      by (simp add: run_controller_task_def flight_ok_def)
  next
    case (Waiting s)
    show ?thesis
    proof (cases "mailbox c")
      case Nil
      then show ?thesis using Some x Waiting assms by (simp add: run_controller_task_def)
    next
      case (Cons m ms)
      obtain r c' where pm: "process_internal_message (joins ev) (Some m) (c\<lparr>mailbox := ms\<rparr>) = (r, c')"
        by fastforce
      show ?thesis
      proof (cases r)
        case (Inl e)
        then show ?thesis
          using Some x Waiting Cons pm by (simp add: run_controller_task_def settle_def server_inv_def)
      next
        case (Inr u)
        then show ?thesis
          using process_message_frame [OF pm Cons] settled [of c' s] ok Some x Waiting Cons pm
          by (auto simp: run_controller_task_def flight_ok_def)
      qed
    qed
  qed
qed

lemma connections_end_worker:
  "connections (end_worker sid c) = connections c" "same_test c (end_worker sid c)"
  "test_state (test (end_worker sid c)) = test_state (test c)"
  "length (mailbox c) \<le> INTERNAL_PROT_BUFFER \<Longrightarrow> length (mailbox (end_worker sid c)) \<le> INTERNAL_PROT_BUFFER"
proof -
  have "(\<lambda>(k, w). worker_stream (task w)) ` (\<lambda>(k, w). (k, if k = sid then w\<lparr>channel_closed := True\<rparr> else w)) ` set m
      = (\<lambda>(k, w). worker_stream (task w)) ` set m" for m :: "(nat \<times> stream_worker_ref) list"
    unfolding image_image by (rule image_cong) (auto split: prod.splits)
  then show "connections (end_worker sid c) = connections c"
    unfolding connections_def by (auto simp: end_worker_def controller_try_send_def)
qed (simp_all add: end_worker_def controller_try_send_def same_test_def)

lemma flight_okI:
  assumes "flight_ok h c ph" "same_test c c'" "connections c' = connections c"
    and "test_state (test c') = test_state (test c)" "length (mailbox c') \<le> INTERNAL_PROT_BUFFER"
  shows "flight_ok h c' ph"
  using assms by (auto simp: flight_ok_def same_test_def split: phase.splits)

lemma server_trace_inv: "server_trace h srv \<Longrightarrow> server_inv h srv"
proof (induction rule: server_trace_steps)
  case init
  show ?case by (simp add: server_inv_def server_init_def)
next
  case (accept h srv inb srv')
  then show ?case by (auto intro: accept_inv)
next
  case (controller h srv ev)
  then show ?case by (simp add: controller_task_inv)
next
  case (worker h srv c ph sid)
  then have "flight_ok h c ph" by (simp add: server_inv_def)
  then have "flight_ok h (end_worker sid c) ph"
    by (rule flight_okI) (use connections_end_worker [where sid = sid and c = c] \<open>flight_ok h c ph\<close> in
      \<open>simp_all add: flight_ok_def\<close>)
  then show ?case by (simp add: server_inv_def)
next
  case (orphan h srv c ph xs sid ys)
  then have "flight_ok h c ph" by (simp add: server_inv_def)
  then have "flight_ok h (snd (controller_try_send (StreamTerminated sid) c)) ph"
    by (rule flight_okI) (use \<open>flight_ok h c ph\<close> in
      \<open>auto simp: controller_try_send_def connections_def same_test_def flight_ok_def\<close>)
  then show ?case by (simp add: server_inv_def)
next
  case (break h srv c ph)
  then have "flight_ok h c ph" by (simp add: server_inv_def)
  then have "flight_ok h (c\<lparr>test := (test c)\<lparr>control_broken := True\<rparr>\<rparr>) ph"
    by (rule flight_okI) (use \<open>flight_ok h c ph\<close> in
      \<open>simp_all add: connections_def same_test_def flight_ok_def\<close>)
  then show ?case by (simp add: server_inv_def)
qed

section \<open>Concrete runs\<close>

text \<open>A schedule picks the step that runs next; executing one gives a trace.\<close>

datatype action = Serve inbound | Controller env | EndWorker nat | Break

fun execute :: "action list \<Rightarrow> server \<Rightarrow> server option" where
  "execute [] srv = Some srv"
| "execute (Serve inb # as) srv =
     (case serve_connection inb srv of
        (Inl e, srv') \<Rightarrow> None
      | (Inr _, srv') \<Rightarrow> execute as srv')"
| "execute (Controller ev # as) srv = execute as (run_controller_task ev srv)"
| "execute (EndWorker sid # as) srv =
     (case in_flight srv of
        None \<Rightarrow> None
      | Some (c, ph) \<Rightarrow>
          (if live_worker sid c then execute as (srv\<lparr>in_flight := Some (end_worker sid c, ph)\<rparr>)
           else None))"
| "execute (Break # as) srv =
     (case in_flight srv of
        None \<Rightarrow> None
      | Some (c, ph) \<Rightarrow>
          execute as (srv\<lparr>in_flight := Some (c\<lparr>test := (test c)\<lparr>control_broken := True\<rparr>\<rparr>, ph)\<rparr>))"

fun served_by :: "action list \<Rightarrow> inbound list" where
  "served_by [] = []"
| "served_by (Serve inb # as) = inb # served_by as"
| "served_by (_ # as) = served_by as"

lemma execute_trace:
  "server_trace h srv \<Longrightarrow> execute as srv = Some srv' \<Longrightarrow> server_trace (h @ served_by as) srv'"
proof (induction as srv arbitrary: h rule: execute.induct)
  case (2 inb as srv)
  then obtain srv1 where "serve_connection inb srv = (Inr (), srv1)" "execute as srv1 = Some srv'"
    by (auto split: prod.splits sum.splits)
  then show ?case
    using 2 server_step.accept server_trace.served by fastforce
next
  case (3 ev as srv)
  then show ?case using server_step.controller server_trace.internal by fastforce
next
  case (4 sid as srv)
  then obtain c ph where c: "in_flight srv = Some (c, ph)" "live_worker sid c"
      "execute as (srv\<lparr>in_flight := Some (end_worker sid c, ph)\<rparr>) = Some srv'"
    by (auto split: option.splits if_splits)
  then have "server_trace h (srv\<lparr>in_flight := Some (end_worker sid c, ph)\<rparr>)"
    using 4(2) server_step.worker server_trace.internal by blast
  then show ?case using 4(1) [OF c(1) refl c(2)] c(3) by simp
next
  case (5 as srv)
  then obtain c ph where c: "in_flight srv = Some (c, ph)"
      "execute as (srv\<lparr>in_flight := Some (c\<lparr>test := (test c)\<lparr>control_broken := True\<rparr>\<rparr>, ph)\<rparr>) = Some srv'"
    by (auto split: option.splits)
  then have "server_trace h (srv\<lparr>in_flight := Some (c\<lparr>test := (test c)\<lparr>control_broken := True\<rparr>\<rparr>, ph)\<rparr>)"
    using 5(2) server_step.break server_trace.internal by blast
  then show ?case using 5(1) [OF c(1) refl] c(2) by simp
qed simp

lemma execute_init: "execute as server_init = Some srv \<Longrightarrow> server_trace (served_by as) srv"
  using execute_trace [OF server_trace.init, of as srv] by simp

definition sample_control :: "tcp_stream \<Rightarrow> string \<Rightarrow> test_parameters \<Rightarrow> inbound" where
  "sample_control s ck p = \<lparr>inb_stream = s, inb_first = Inr (Hello ck), inb_welcome = Inr (),
     inb_params = Some (Inr (SendParameters p))\<rparr>"

definition sample_data :: "tcp_stream \<Rightarrow> string \<Rightarrow> inbound" where
  "sample_data s ck = \<lparr>inb_stream = s, inb_first = Inr (Hello ck), inb_welcome = Inr (),
     inb_params = None\<rparr>"

definition sample_run :: "action list" where
  "sample_run = [Serve (sample_control 1 ''k'' (sample_params ClientToServer 2)),
     Controller (sample_env sample_stats test_results_default), Serve (sample_data 2 ''k''),
     Controller (sample_env sample_stats test_results_default)]"

text \<open>After this run one of two streams is registered.\<close>

definition sample_server :: server where
  "sample_server = the (execute sample_run server_init)"

definition the_controller :: "server \<Rightarrow> controller" where
  "the_controller srv = fst (the (in_flight srv))"

lemma sample_run_state:
  "execute sample_run server_init = Some sample_server"
  "in_flight sample_server = Some (the_controller sample_server, Waiting (CreateStreams ''k''))"
  "streams (test (the_controller sample_server)) = [(0, snd (hd (streams (test (the_controller sample_server)))))]"
  "worker_stream (task (snd (hd (streams (test (the_controller sample_server)))))) = 2"
  "cookie (test (the_controller sample_server)) = ''k''"
  "test_state (test (the_controller sample_server)) = CreateStreams ''k''"
  "mailbox (the_controller sample_server) = []"
  by code_simp+

section \<open>Properties\<close>

text \<open>
  Authentication: in every reachable state, each data stream of the test in flight is a
  connection that presented the cookie of this test in its first message.
\<close>

theorem data_streams_authenticated:
  assumes "server_trace h srv" "in_flight srv = Some (c, ph)" "(k, w) \<in> set (streams (test c))"
  shows "\<exists>inb \<in> set h. inb_stream inb = worker_stream (task w)
    \<and> inb_first inb = Inr (Hello (cookie (test c)))"
proof -
  have "flight_ok h c ph" using server_trace_inv [OF assms(1)] assms(2) by (simp add: server_inv_def)
  moreover have "worker_stream (task w) \<in> connections c"
    using assms(3) by (force simp: connections_def)
  ultimately show ?thesis by (simp add: flight_ok_def)
qed

theorem data_streams_authenticated_witness:
  "\<exists>inb \<in> set (served_by sample_run). inb_stream inb = 2 \<and> inb_first inb = Inr (Hello ''k'')"
  using data_streams_authenticated [OF execute_init [OF sample_run_state(1)] sample_run_state(2), of 0]
    sample_run_state(3-5) by (metis list.set_intros(1))

text \<open>
  C4. One test at a time. Whatever a connection sends while a test is in flight, the test keeps its parameters,
  its state, its streams and its results, and there are three outcomes. The connection is told that a test is in
  flight, unless the test is creating streams and it presented the cookie. It is welcomed and queued as one data
  stream, when it presented the cookie and the channel has room. Or the accept loop ends with an error: only
  while streams are created, for a first message that is no hello, a welcome that cannot be written, or a full
  channel; then too the test is as it was.
\<close>

theorem in_flight_test_undisturbed:
  assumes "in_flight srv = Some (c, ph)" "serve_connection inb srv = (r, srv')"
  shows "\<exists>ms. in_flight srv' = Some (c\<lparr>mailbox := mailbox c @ ms\<rparr>, ph) \<and> detached srv' = detached srv
    \<and> (r = Inr () \<and> ms = [] \<and> replies srv' = replies srv @ [(inb_stream inb, already_in_flight)]
         \<and> (\<forall>ck. test_state (test c) = CreateStreams ck \<longrightarrow> (\<exists>ck'. inb_first inb = Inr (Hello ck') \<and> ck' \<noteq> ck))
       \<or> r = Inr () \<and> ms = [CreateStream (inb_stream inb)] \<and> length (mailbox c) < INTERNAL_PROT_BUFFER
         \<and> replies srv' = replies srv @ [(inb_stream inb, ServerMessage Welcome)]
         \<and> (\<exists>ck. test_state (test c) = CreateStreams ck \<and> inb_first inb = Inr (Hello ck))
       \<or> isl r \<and> ms = [] \<and> (\<exists>ck. test_state (test c) = CreateStreams ck
         \<and> (replies srv' = replies srv
              \<and> ((\<forall>ck'. inb_first inb \<noteq> Inr (Hello ck')) \<or> inb_first inb = Inr (Hello ck) \<and> isl (inb_welcome inb))
            \<or> replies srv' = replies srv @ [(inb_stream inb, ServerMessage Welcome)]
              \<and> inb_first inb = Inr (Hello ck) \<and> INTERNAL_PROT_BUFFER \<le> length (mailbox c))))"
proof (cases "\<exists>ck. test_state (test c) = CreateStreams ck")
  case False
  then show ?thesis using assms
    by (intro exI [of _ "[]"]) (auto simp: serve_connection_def reply_def split: state.splits)
next
  case True
  then obtain ck where ck: "test_state (test c) = CreateStreams ck" by blast
  show ?thesis
  proof (cases "inb_first inb = Inr (Hello ck)")
    case True
    note hello = this
    consider (queued) "inb_welcome inb = Inr ()" "length (mailbox c) < INTERNAL_PROT_BUFFER"
      | (full) "inb_welcome inb = Inr ()" "INTERNAL_PROT_BUFFER \<le> length (mailbox c)"
      | (unwelcome) e where "inb_welcome inb = Inl e"
      by (cases "inb_welcome inb") (auto simp: not_less [symmetric])
    then show ?thesis
    proof cases
      case queued
      then show ?thesis using assms ck hello
        by (intro exI [of _ "[CreateStream (inb_stream inb)]"])
          (auto simp: serve_connection_def read_cookie_def reply_def controller_try_send_def Let_def)
    next
      case full
      then show ?thesis using assms ck hello
        by (intro exI [of _ "[]"])
          (auto simp: serve_connection_def read_cookie_def reply_def controller_try_send_def Let_def)
    next
      case unwelcome
      then have "r = Inl e" "srv' = srv"
        using assms ck hello by (simp_all add: serve_connection_def read_cookie_def)
      then show ?thesis using assms(1) ck hello unwelcome by (intro exI [of _ "[]"]) simp
    qed
  next
    case False
    then show ?thesis using assms ck
      by (intro exI [of _ "[]"])
        (auto simp: serve_connection_def read_cookie_def reply_def split: sum.splits client_message.splits if_splits)
  qed
qed

text \<open>A connection with the wrong cookie, and one that sends something else first.\<close>

theorem in_flight_test_undisturbed_witness:
  "replies (snd (serve_connection (sample_data 9 ''wrong'') sample_server))
      = replies sample_server @ [(9, already_in_flight)]
    \<and> isl (fst (serve_connection ((sample_data 9 ''k'')\<lparr>inb_first := Inl ClosedByPeer\<rparr>) sample_server))
    \<and> (\<exists>ms. in_flight (snd (serve_connection ((sample_data 9 ''k'')\<lparr>inb_first := Inl ClosedByPeer\<rparr>) sample_server))
        = Some ((the_controller sample_server)\<lparr>mailbox := ms\<rparr>, Waiting (CreateStreams ''k'')))"
proof -
  let ?bad = "(sample_data 9 ''k'')\<lparr>inb_first := Inl ClosedByPeer\<rparr>"
  obtain r1 s1 where s1: "serve_connection (sample_data 9 ''wrong'') sample_server = (r1, s1)" by fastforce
  obtain r2 s2 where s2: "serve_connection ?bad sample_server = (r2, s2)" by fastforce
  have "isl r2 \<longleftrightarrow> True" "replies s1 = replies sample_server @ [(9, already_in_flight)]"
    using in_flight_test_undisturbed [OF sample_run_state(2) s1] in_flight_test_undisturbed [OF sample_run_state(2) s2]
      sample_run_state(6) by (auto simp: sample_data_def)
  then show ?thesis
    using in_flight_test_undisturbed [OF sample_run_state(2) s2] s1 s2 by auto
qed

text \<open>
  A connection whose first message cannot be read while streams are being created ends the
  accept loop with an error: the server serves no further connection.
\<close>

theorem bad_hello_ends_server:
  assumes "in_flight srv = Some (c, ph)" "test_state (test c) = CreateStreams ck"
    and "inb_first inb = Inl e"
  shows "run_server (inb # inbs) srv = (Inl (NegotiationFailed e), srv)"
  using assms by (simp add: serve_connection_def read_cookie_def)

theorem bad_hello_ends_server_witness:
  "run_server [(sample_data 9 ''k'')\<lparr>inb_first := Inl ClosedByPeer\<rparr>, sample_data 10 ''k''] sample_server
    = (Inl (NegotiationFailed ClosedByPeer), sample_server)"
  by (rule bad_hello_ends_server [OF sample_run_state(2,6)]) simp

end
