(* ===== verification/Interleave.thy ===== *)
theory Interleave
  imports ServerInv
begin

text \<open>
  The server at the granularity of its awaits: between any two awaits of the accept loop or of the
  controller task the other tasks may run. The mutex around the state of the test is explicit: the accept
  loop keeps it locked while it reads the cookie of a connection and answers it.
\<close>

section \<open>Where the tasks wait\<close>

text \<open>
  The accept loop waits for a connection, negotiates a new test, waits for the mutex, reads the hello
  (to be compared with the cookie it has found), writes the welcome, writes a refusal (with the mutex
  locked or not), or has returned with an error.
\<close>

datatype acceptor =
    Accepting
  | Negotiating inbound
  | Locking inbound
  | Reading inbound string
  | Welcoming inbound
  | Refusing inbound bool
  | Stopped any_error

text \<open>
  The guard of the mutex lives through the first branch of the \<open>if let\<close>, and is dropped before the other
  one (edition 2024).
\<close>

fun guard_held :: "acceptor \<Rightarrow> bool" where
  "guard_held (Reading inb ck) = True"
| "guard_held (Welcoming inb) = True"
| "guard_held (Refusing inb g) = g"
| "guard_held _ = False"

text \<open>
  The controller task waits for the mutex before its loop or at the top of it, writes a new state to the
  client (an error of which ends the task or, when the flag is off, is ignored), waits for the mutex to
  store this state, waits for a message, for a worker to join, or for the exchange of results. The last
  argument is the old state of the loop.
\<close>

datatype point =
    Starting
  | Top state
  | Announcing state bool state
  | Storing state state
  | Receiving state
  | Joining nat stream_worker_ref state
  | Exchanging
  | Ended

text \<open>The test remains when its controller has ended, as long as the accept loop holds a reference to it.\<close>

record tasks =
  acceptor_at :: acceptor
  flight :: "(controller \<times> point) option"
  orphans :: "nat list"
  answers :: "(tcp_stream \<times> server_envelope) list"

definition alive :: "tasks \<Rightarrow> bool" where
  "alive s = (case flight s of None \<Rightarrow> False | Some (c, pc) \<Rightarrow> pc \<noteq> Ended)"

definition write_answer :: "tcp_stream \<Rightarrow> server_envelope \<Rightarrow> tasks \<Rightarrow> tasks" where
  "write_answer st m s = s\<lparr>answers := answers s @ [(st, m)]\<rparr>"

section \<open>The accept loop\<close>

text \<open>A connection arrives: the weak reference to the state can be upgraded while the controller lives.\<close>

definition accept_inbound :: "inbound \<Rightarrow> tasks \<Rightarrow> tasks" where
  "accept_inbound inb s = s\<lparr>acceptor_at := (if alive s then Locking inb else Negotiating inb)\<rparr>"

text \<open>The channel to the controller is closed when the controller has ended.\<close>

definition hand_over ::
    "tcp_stream \<Rightarrow> controller \<times> point \<Rightarrow> (any_error + unit) \<times> (controller \<times> point)" where
  "hand_over st x =
     (case x of (c, pc) \<Rightarrow>
        if pc = Ended then (Inl ChannelTerminated, (c, pc))
        else (case controller_try_send (CreateStream st) c of (r, c') \<Rightarrow> (r, (c', pc))))"

text \<open>The accept loop runs from the end of one await to the next.\<close>

definition acceptor_resume :: "tasks \<Rightarrow> tasks" where
  "acceptor_resume s =
     (case acceptor_at s of
        Locking inb \<Rightarrow>
          (case flight s of
             None \<Rightarrow> s
           | Some (c, pc) \<Rightarrow>
               (case test_state (test c) of
                  CreateStreams ck \<Rightarrow> s\<lparr>acceptor_at := Reading inb ck\<rparr>
                | _ \<Rightarrow> s\<lparr>acceptor_at := Refusing inb False\<rparr>))
      | Reading inb ck \<Rightarrow>
          (case read_cookie (inb_first inb) of
             Inl e \<Rightarrow> s\<lparr>acceptor_at := Stopped e\<rparr>
           | Inr client_cookie \<Rightarrow>
               s\<lparr>acceptor_at := (if client_cookie = ck then Welcoming inb else Refusing inb True)\<rparr>)
      | Welcoming inb \<Rightarrow>
          (case inb_welcome inb of
             Inl e \<Rightarrow> s\<lparr>acceptor_at := Stopped e\<rparr>
           | Inr _ \<Rightarrow>
               (let s1 = write_answer (inb_stream inb) (ServerMessage Welcome) s
                in case flight s of
                     None \<Rightarrow> s
                   | Some x \<Rightarrow>
                       (case hand_over (inb_stream inb) x of
                          (Inl e, _) \<Rightarrow> s1\<lparr>acceptor_at := Stopped e\<rparr>
                        | (Inr _, x') \<Rightarrow> s1\<lparr>acceptor_at := Accepting, flight := Some x'\<rparr>)))
      | Refusing inb g \<Rightarrow> (write_answer (inb_stream inb) already_in_flight s)\<lparr>acceptor_at := Accepting\<rparr>
      | Negotiating inb \<Rightarrow>
          (let s1 = (if welcomed inb then write_answer (inb_stream inb) (ServerMessage Welcome) s else s)
           in case create_test inb of
                Inr t \<Rightarrow> s1\<lparr>acceptor_at := Accepting, flight := Some (controller_new t, Starting)\<rparr>
              | Inl e \<Rightarrow> s1\<lparr>acceptor_at := Accepting\<rparr>)
      | _ \<Rightarrow> s)"

section \<open>The controller task\<close>

text \<open>After a worker has been joined: the last one moves the test on.\<close>

definition after_termination :: "controller \<Rightarrow> state \<Rightarrow> controller \<times> point" where
  "after_termination c old =
     (if streams (test c) = [] then (c, Announcing ExchangeResults False old) else (c, Top old))"

definition receive :: "controller_message \<Rightarrow> controller \<Rightarrow> state \<Rightarrow> controller \<times> point" where
  "receive m c old =
     (case m of
        CreateStream st \<Rightarrow>
          (let c1 = create_and_register_stream_worker st c
           in (c1, if length (streams (test c1)) = total_needed_streams (test c)
                   then Announcing Running True old else Top old))
      | StreamTerminated sid \<Rightarrow>
          (let c1 = c\<lparr>test := (test c)\<lparr>streams := AList.delete sid (streams (test c))\<rparr>\<rparr>
           in case map_of (streams (test c)) sid of
                None \<Rightarrow> after_termination c1 old
              | Some w \<Rightarrow> (c1, Joining sid w old)))"

text \<open>
  The task runs from the end of one await to the next; where it needs the mutex and the accept loop has
  locked it, it keeps waiting.
\<close>

definition controller_resume :: "env \<Rightarrow> bool \<Rightarrow> controller \<times> point \<Rightarrow> controller \<times> point" where
  "controller_resume ev locked x =
     (case x of (c, pc) \<Rightarrow>
       (case pc of
          Starting \<Rightarrow> if locked then x else (c, Top (test_state (test c)))
        | Top old \<Rightarrow>
            if locked then x
            else (case test_state (test c) of
                    TestStart \<Rightarrow> (c, Announcing (CreateStreams (cookie (test c))) True old)
                  | Running \<Rightarrow>
                      (if old \<noteq> Running then broadcast_to_streams StartLoad (print Header c) else c,
                       Receiving Running)
                  | ExchangeResults \<Rightarrow> (broadcast_to_streams Terminate c, Exchanging)
                  | st \<Rightarrow> (c, Receiving st))
        | Announcing st strict old \<Rightarrow>
            (case control_send (ToClient (SetState st)) (test c) of
               (Inl e, t) \<Rightarrow> (c\<lparr>test := t\<rparr>, if strict then Ended else Top old)
             | (Inr _, t) \<Rightarrow> (c\<lparr>test := t\<rparr>, Storing st old))
        | Storing st old \<Rightarrow>
            if locked then x else (c\<lparr>test := (test c)\<lparr>test_state := st\<rparr>\<rparr>, Top old)
        | Receiving old \<Rightarrow>
            (case mailbox c of [] \<Rightarrow> x | m # ms \<Rightarrow> receive m (c\<lparr>mailbox := ms\<rparr>) old)
        | Joining sid w old \<Rightarrow>
            (case join_terminated (joins ev) sid (Some w) c of
               Inl e \<Rightarrow> (c, Ended)
             | Inr c1 \<Rightarrow> after_termination c1 old)
        | Exchanging \<Rightarrow>
            (case collect_test_result ev c of
               (loc, c1) \<Rightarrow>
                 (case exchange_results ev loc c1 of
                    (Inl e, c2) \<Rightarrow> (c2, Ended)
                  | (Inr remote, c2) \<Rightarrow> (print Done (print_results loc remote c2), Ended)))
        | Ended \<Rightarrow> x))"

section \<open>The system\<close>

text \<open>
  A move: a connection arrives, the accept loop or the controller task goes on, a worker ends, with its
  handle in the table or not, or the control connection breaks. \<open>None\<close> is a move that is not possible.
\<close>

datatype move = Arrive inbound | Accept | Control env | Finish nat | Orphan nat | Cut

definition perform :: "move \<Rightarrow> tasks \<Rightarrow> tasks option" where
  "perform m s =
     (case m of
        Arrive inb \<Rightarrow> if acceptor_at s = Accepting then Some (accept_inbound inb s) else None
      | Accept \<Rightarrow> Some (acceptor_resume s)
      | _ \<Rightarrow>
          (case flight s of
             None \<Rightarrow> None
           | Some (c, pc) \<Rightarrow>
               if pc = Ended then None
               else (case m of
                       Control ev \<Rightarrow>
                         (case controller_resume ev (guard_held (acceptor_at s)) (c, pc) of (c', pc') \<Rightarrow>
                            Some (s\<lparr>flight := Some (c', pc'), orphans := (if pc' = Ended then [] else
                              orphans s @ dropped (streams (test c)) (streams (test c')))\<rparr>))
                     | Finish sid \<Rightarrow>
                         if live_worker sid c then Some (s\<lparr>flight := Some (end_worker sid c, pc)\<rparr>) else None
                     | Orphan sid \<Rightarrow>
                         if sid \<in> set (orphans s)
                         then Some (s\<lparr>orphans := remove1 sid (orphans s),
                           flight := Some (snd (controller_try_send (StreamTerminated sid) c), pc)\<rparr>)
                         else None
                     | _ \<Rightarrow> Some (s\<lparr>flight := Some (c\<lparr>test := (test c)\<lparr>control_broken := True\<rparr>\<rparr>, pc)\<rparr>))))"

fun arrivals :: "move \<Rightarrow> inbound list" where
  "arrivals (Arrive inb) = [inb]"
| "arrivals _ = []"

definition tasks_init :: tasks where
  "tasks_init = \<lparr>acceptor_at = Accepting, flight = None, orphans = [], answers = []\<rparr>"

text \<open>The reachable states, with the connections that have arrived.\<close>

inductive interleaved :: "inbound list \<Rightarrow> tasks \<Rightarrow> bool" where
  init: "interleaved [] tasks_init"
| move: "interleaved h s \<Longrightarrow> perform m s = Some t \<Longrightarrow> interleaved (h @ arrivals m) t"

fun schedule :: "move list \<Rightarrow> tasks \<Rightarrow> tasks option" where
  "schedule [] s = Some s"
| "schedule (m # ms) s = (case perform m s of None \<Rightarrow> None | Some t \<Rightarrow> schedule ms t)"

lemma schedule_interleaved:
  "interleaved h s \<Longrightarrow> schedule ms s = Some t \<Longrightarrow> interleaved (h @ concat (map arrivals ms)) t"
proof (induction ms arbitrary: h s)
  case (Cons m ms)
  then obtain u where "perform m s = Some u" "schedule ms u = Some t" by (auto split: option.splits)
  then show ?case using Cons.IH [OF interleaved.move [OF Cons.prems(1)]] by fastforce
qed simp

end
