(* ===== verification/InterleaveInv.thy ===== *)
theory InterleaveInv
  imports Interleave
begin

text \<open>
  Invariants of the system of theory \<open>Interleave\<close>: who is in which state while the mutex is locked, that no
  worker has been told anything before the load starts, and what has been written to the client.
\<close>

section \<open>What a step of the controller task keeps\<close>

lemma join_terminated_frame:
  assumes "join_terminated join sid w c = Inr c'"
  shows "test c' = test c \<and> mailbox c' = mailbox c"
  using assms by (auto simp: join_terminated_def split: option.splits join_outcome.splits sum.splits)

lemma after_termination_frame:
  "after_termination c old = (c', pc) \<longleftrightarrow>
     c' = c \<and> pc = (if streams (test c) = [] then Announcing ExchangeResults False old else Top old)"
  by (auto simp: after_termination_def)

lemma connections_test:
  "connections c' \<subseteq> connections c"
  if "streams (test c') = streams (test c)" "mailbox c' = mailbox c"
  using that by (simp add: connections_def)

lemma control_sent_same: "\<exists>x. t = t\<lparr>control_sent := x\<rparr>" for t :: perf_test
  by (rule exI [of _ "control_sent t"]) simp

lemma control_send_frame:
  assumes "control_send m t = (r, t')"
  shows "\<exists>x. t' = t\<lparr>control_sent := x\<rparr>"
  using assms control_sent_same [of t] by (auto simp: control_send_def split: if_splits)

lemma exchange_frame:
  assumes "exchange_results ev loc c = (r, c')"
  shows "(\<exists>x. test c' = (test c)\<lparr>control_sent := x\<rparr>) \<and> mailbox c' = mailbox c"
  using assms control_sent_same [of "test c"]
  by (auto simp: exchange_results_def control_send_def split: if_splits sum.splits
      server_message.splits client_message.splits)

text \<open>The state of the test changes only where the task stores it, which needs the mutex.\<close>

definition resumes :: "bool \<Rightarrow> controller \<Rightarrow> point \<Rightarrow> controller \<Rightarrow> bool" where
  "resumes locked c pc c' \<longleftrightarrow> same_test c c' \<and> connections c' \<subseteq> connections c
     \<and> length (mailbox c') \<le> length (mailbox c)
     \<and> (test_state (test c') = test_state (test c)
        \<or> \<not> locked \<and> (\<exists>st old. pc = Storing st old \<and> test_state (test c') = st))"

lemma receive_resumes:
  assumes "receive m (c\<lparr>mailbox := ms\<rparr>) old = (c', pc')" "mailbox c = m # ms"
  shows "resumes locked c pc c'"
proof (cases m)
  case (CreateStream st)
  then have c': "c' = create_and_register_stream_worker st (c\<lparr>mailbox := ms\<rparr>)"
    using assms(1) by (auto simp: receive_def Let_def)
  have "connections c' \<subseteq> insert st (connections (c\<lparr>mailbox := ms\<rparr>))"
    unfolding c' by (rule connections_register)
  also have "\<dots> \<subseteq> connections c" using assms(2) CreateStream by (auto simp: connections_def)
  finally show ?thesis using assms(2) by (simp add: resumes_def c' register_eq same_test_def)
next
  case (StreamTerminated sid)
  then have c': "c' = c\<lparr>mailbox := ms, test := (test c)\<lparr>streams := AList.delete sid (streams (test c))\<rparr>\<rparr>"
    using assms(1) by (auto simp: receive_def Let_def after_termination_frame split: option.splits)
  have "connections c' \<subseteq> connections c"
    by (rule connections_mono) (use assms(2) in \<open>auto simp: c' dest: subsetD [OF set_delete_subset]\<close>)
  then show ?thesis using assms(2) by (simp add: resumes_def c' same_test_def)
qed

lemma resumes_frame:
  assumes "test c' = (test c)\<lparr>control_sent := m\<rparr>" "mailbox c' = mailbox c"
  shows "resumes locked c pc c'"
  using assms by (simp add: resumes_def same_test_def connections_def)

lemma resumes_refl [simp]: "resumes locked c pc c"
  by (simp add: resumes_def)

lemma resumes_broadcast [simp]:
  "resumes locked c pc (broadcast_to_streams m c)"
  "resumes locked c pc (broadcast_to_streams m (print r c))"
proof -
  have "connections (print r c) = connections c" by (simp add: connections_def)
  moreover have "same_test c (broadcast_to_streams m d)" if "test d = test c" for d
    using that by (simp add: same_test_def broadcast_to_streams_def)
  ultimately show "resumes locked c pc (broadcast_to_streams m c)"
    "resumes locked c pc (broadcast_to_streams m (print r c))"
    by (simp_all add: resumes_def)
qed

lemma controller_resume_resumes:
  assumes "controller_resume ev locked (c, pc) = (c', pc')"
  shows "resumes locked c pc c'"
proof (cases pc)
  case Starting
  then show ?thesis using assms by (auto simp: controller_resume_def split: if_splits)
next
  case (Top old)
  then show ?thesis
    using assms by (auto simp: controller_resume_def split: if_splits state.splits)
next
  case (Announcing st strict old)
  then have "test c' = snd (control_send (ToClient (SetState st)) (test c)) \<and> mailbox c' = mailbox c"
    using assms by (auto simp: controller_resume_def split: prod.splits sum.splits if_splits)
  then show ?thesis
    using control_send_frame [of "ToClient (SetState st)" "test c", OF prod.collapse [symmetric]]
    by (auto intro: resumes_frame)
next
  case (Storing st old)
  then show ?thesis
    using assms by (auto simp: controller_resume_def resumes_def same_test_def connections_def split: if_splits)
next
  case (Receiving old)
  then show ?thesis
    using assms receive_resumes by (auto simp: controller_resume_def split: list.splits)
next
  case (Joining sid w old)
  then have "test c' = test c \<and> mailbox c' = mailbox c"
    using assms join_terminated_frame
    by (auto simp: controller_resume_def after_termination_frame split: sum.splits)
  then show ?thesis by (simp add: resumes_def same_test_def connections_def)
next
  case Exchanging
  define c1 where "c1 = snd (collect_test_result ev c)"
  define loc where "loc = fst (collect_test_result ev c)"
  obtain r c2 where x: "exchange_results ev loc c1 = (r, c2)" by fastforce
  have "test c' = test c2 \<and> mailbox c' = mailbox c2"
    using assms Exchanging x
    by (auto simp: controller_resume_def print_results_def Let_def loc_def c1_def split: prod.splits sum.splits)
  moreover have "(\<exists>y. test c2 = (test c1)\<lparr>control_sent := y\<rparr>) \<and> mailbox c2 = mailbox c1"
    by (rule exchange_frame [OF x])
  moreover have "test c1 = (test c)\<lparr>streams := []\<rparr>" "mailbox c1 = mailbox c"
    by (simp_all add: c1_def collect_test_result_def Let_def)
  ultimately obtain y where "test c' = (test c)\<lparr>streams := [], control_sent := y\<rparr>" "mailbox c' = mailbox c"
    by auto
  then show ?thesis by (simp add: resumes_def same_test_def connections_def)
next
  case Ended
  then show ?thesis using assms by (simp add: controller_resume_def)
qed

section \<open>The invariant\<close>

definition next_state :: "string \<Rightarrow> state \<Rightarrow> state \<Rightarrow> bool" where
  "next_state ck st st' \<longleftrightarrow> (st, st') \<in> {(TestStart, CreateStreams ck), (CreateStreams ck, Running),
     (Running, Running), (CreateStreams ck, ExchangeResults), (Running, ExchangeResults)}"

fun point_ok :: "string \<Rightarrow> state \<Rightarrow> point \<Rightarrow> bool" where
  "point_ok ck st Starting = (st = TestStart)"
| "point_ok ck st (Announcing st' strict old) = next_state ck st st'"
| "point_ok ck st (Storing st' old) = next_state ck st st'"
| "point_ok ck st (Receiving old) = (st = old \<and> st \<in> {CreateStreams ck, Running})"
| "point_ok ck st (Joining sid w old) = (st \<in> {CreateStreams ck, Running})"
| "point_ok ck st Exchanging = (st = ExchangeResults)"
| "point_ok ck st _ = True"

definition controller_ok :: "inbound list \<Rightarrow> controller \<Rightarrow> point \<Rightarrow> bool" where
  "controller_ok h c pc \<longleftrightarrow> test_role (test c) = Server \<and> length (mailbox c) \<le> INTERNAL_PROT_BUFFER
     \<and> (\<forall>st \<in> connections c. \<exists>inb \<in> set h. inb_stream inb = st
          \<and> inb_first inb = Inr (Hello (cookie (test c))))
     \<and> test_state (test c) \<in> {TestStart, CreateStreams (cookie (test c)), Running, ExchangeResults}
     \<and> point_ok (cookie (test c)) (test_state (test c)) pc"

text \<open>The test whose state the accept loop has locked.\<close>

definition creating :: "string \<Rightarrow> tasks \<Rightarrow> bool" where
  "creating ck s \<longleftrightarrow> (\<exists>c pc. flight s = Some (c, pc) \<and> cookie (test c) = ck \<and> test_state (test c) = CreateStreams ck)"

definition acceptor_ok :: "inbound list \<Rightarrow> tasks \<Rightarrow> bool" where
  "acceptor_ok h s \<longleftrightarrow>
     (case acceptor_at s of
        Negotiating inb \<Rightarrow> inb \<in> set h \<and> \<not> alive s
      | Locking inb \<Rightarrow> inb \<in> set h \<and> flight s \<noteq> None
      | Reading inb ck \<Rightarrow> inb \<in> set h \<and> creating ck s
      | Welcoming inb \<Rightarrow> inb \<in> set h \<and> (\<exists>ck. inb_first inb = Inr (Hello ck) \<and> creating ck s)
      | Refusing inb g \<Rightarrow> inb \<in> set h \<and> (g \<longrightarrow> (\<exists>ck. creating ck s))
      | _ \<Rightarrow> True)"

definition tasks_inv :: "inbound list \<Rightarrow> tasks \<Rightarrow> bool" where
  "tasks_inv h s \<longleftrightarrow> acceptor_ok h s \<and> (\<forall>c pc. flight s = Some (c, pc) \<longrightarrow> controller_ok h c pc)"

lemma controller_ok_history: "controller_ok h c pc \<Longrightarrow> set h \<subseteq> set h' \<Longrightarrow> controller_ok h' c pc"
  unfolding controller_ok_def by blast

lemma receive_point:
  assumes "receive m c old = (c', pc')" "st \<in> {CreateStreams ck, Running}"
  shows "point_ok ck st pc'"
  using assms
  by (auto simp: receive_def Let_def after_termination_def next_state_def
      split: controller_message.splits option.splits if_splits)

lemma controller_resume_point:
  assumes "controller_resume ev locked (c, pc) = (c', pc')" "controller_ok h c pc"
  shows "point_ok (cookie (test c)) (test_state (test c')) pc'
    \<and> test_state (test c') \<in> {TestStart, CreateStreams (cookie (test c)), Running, ExchangeResults}"
proof -
  have st: "test_state (test c) \<in> {TestStart, CreateStreams (cookie (test c)), Running, ExchangeResults}"
    and pc: "point_ok (cookie (test c)) (test_state (test c)) pc"
    using assms(2) by (simp_all add: controller_ok_def)
  have st': "test_state (test c') \<in> {TestStart, CreateStreams (cookie (test c)), Running, ExchangeResults}"
    using controller_resume_resumes [OF assms(1)] st pc by (auto simp: resumes_def next_state_def)
  moreover have "point_ok (cookie (test c)) (test_state (test c')) pc'"
  proof (cases "\<exists>old. pc = Top old")
    case True
    then show ?thesis
      using assms(1) st pc by (auto simp: controller_resume_def next_state_def split: if_splits)
  next
    case False
    show ?thesis
    proof (cases "\<exists>st old. pc = Storing st old \<and> \<not> locked")
      case True
      then show ?thesis using assms(1) by (auto simp: controller_resume_def)
    next
      case nstore: False
      then have eq: "test_state (test c') = test_state (test c)"
        using controller_resume_resumes [OF assms(1)] by (auto simp: resumes_def)
      show ?thesis
        unfolding eq using assms(1) pc False nstore
        by (cases pc) (auto simp: controller_resume_def after_termination_frame receive_point
            split: if_splits list.splits sum.splits prod.splits, auto simp: next_state_def)
    qed
  qed
  ultimately show ?thesis by blast
qed

lemma controller_resume_ok:
  assumes "controller_resume ev locked (c, pc) = (c', pc')" "controller_ok h c pc"
  shows "controller_ok h c' pc'"
  using controller_resume_point [OF assms] controller_resume_resumes [OF assms(1)] assms(2)
  by (auto simp: controller_ok_def resumes_def same_test_def)

lemma creating_resume:
  assumes "controller_resume ev True (c, pc) = (c', pc')" "flight s = Some (c, pc)" "creating ck s"
    and "flight t = Some (c', pc')"
  shows "creating ck t"
  using controller_resume_resumes [OF assms(1)] assms(2-4) by (auto simp: creating_def resumes_def same_test_def)

lemma creating_same:
  assumes "flight s = Some (c, pc)" "flight t = Some (c', pc)" "same_test c c'"
    and "test_state (test c') = test_state (test c)" "creating ck s"
  shows "creating ck t"
  using assms by (auto simp: creating_def same_test_def)

text \<open>What keeps the controller and the locked test keeps the invariant.\<close>

lemma tasks_invI:
  assumes "tasks_inv h s" "flight s = Some (c, pc)" "pc \<noteq> Ended" "flight t = Some (c', pc')"
    and "acceptor_at t = acceptor_at s" "controller_ok h c' pc'"
    and "\<And>ck. guard_held (acceptor_at s) \<Longrightarrow> creating ck s \<Longrightarrow> creating ck t"
  shows "tasks_inv h t"
proof -
  have "alive s" using assms(2,3) by (simp add: alive_def)
  then have "acceptor_ok h t"
    using assms by (cases "acceptor_at s") (auto simp: tasks_inv_def acceptor_ok_def)
  then show ?thesis using assms(4,6) by (simp add: tasks_inv_def)
qed

lemma controller_ok_same:
  assumes "controller_ok h c pc" "same_test c c'" "connections c' = connections c"
    and "test_state (test c') = test_state (test c)" "length (mailbox c') \<le> INTERNAL_PROT_BUFFER"
  shows "controller_ok h c' pc"
  using assms by (simp add: controller_ok_def same_test_def)

lemma write_answer_simps [simp]:
  "acceptor_at (write_answer st m s) = acceptor_at s" "flight (write_answer st m s) = flight s"
  "orphans (write_answer st m s) = orphans s" "answers (write_answer st m s) = answers s @ [(st, m)]"
  by (simp_all add: write_answer_def)

lemma hand_over_ok:
  assumes "hand_over st (c, pc) = (Inr (), x')"
  shows "pc \<noteq> Ended \<and> length (mailbox c) < INTERNAL_PROT_BUFFER
    \<and> x' = (c\<lparr>mailbox := mailbox c @ [CreateStream st]\<rparr>, pc)"
  using assms controller_try_send_ok by (auto simp: hand_over_def split: if_splits prod.splits)

text \<open>What one move of the accept loop may do.\<close>

lemma acceptor_resume_cases:
  obtains (waits) "acceptor_resume s = s"
  | (locks) inb c pc ck where "acceptor_at s = Locking inb" "flight s = Some (c, pc)"
      "test_state (test c) = CreateStreams ck" "acceptor_resume s = s\<lparr>acceptor_at := Reading inb ck\<rparr>"
  | (refuses) inb where "acceptor_at s = Locking inb" "acceptor_resume s = s\<lparr>acceptor_at := Refusing inb False\<rparr>"
  | (hears) inb ck where "acceptor_at s = Reading inb ck" "inb_first inb = Inr (Hello ck)"
      "acceptor_resume s = s\<lparr>acceptor_at := Welcoming inb\<rparr>"
  | (denies) inb ck where "acceptor_at s = Reading inb ck"
      "acceptor_resume s = s\<lparr>acceptor_at := Refusing inb True\<rparr>"
  | (hands) inb c pc where "acceptor_at s = Welcoming inb" "flight s = Some (c, pc)" "pc \<noteq> Ended"
      "length (mailbox c) < INTERNAL_PROT_BUFFER"
      "acceptor_resume s = (write_answer (inb_stream inb) (ServerMessage Welcome) s)\<lparr>acceptor_at := Accepting,
         flight := Some (c\<lparr>mailbox := mailbox c @ [CreateStream (inb_stream inb)]\<rparr>, pc)\<rparr>"
  | (creates) inb t where "acceptor_at s = Negotiating inb" "create_test inb = Inr t"
      "acceptor_resume s = (write_answer (inb_stream inb) (ServerMessage Welcome) s)\<lparr>acceptor_at := Accepting,
         flight := Some (controller_new t, Starting)\<rparr>"
  | (returns) m a where "acceptor_resume s = m\<lparr>acceptor_at := a\<rparr>" "flight m = flight s" "orphans m = orphans s"
      "a = Accepting \<or> (\<exists>e. a = Stopped e)" "acceptor_at s \<noteq> Accepting"
      "\<exists>xs. answers m = answers s @ xs"
proof (cases "acceptor_at s")
  case (Locking inb)
  show ?thesis
  proof (cases "flight s")
    case None
    then show ?thesis using Locking waits by (simp add: acceptor_resume_def)
  next
    case (Some x)
    obtain c pc where x: "x = (c, pc)" by (cases x)
    show ?thesis
      by (cases "test_state (test c)")
        (use Locking Some x locks [of inb c pc] refuses [of inb] in \<open>simp_all add: acceptor_resume_def\<close>)
  qed
next
  case (Reading inb ck)
  show ?thesis
  proof (cases "read_cookie (inb_first inb)")
    case (Inl e)
    then show ?thesis using Reading returns [where m = s and a = "Stopped e"] by (simp add: acceptor_resume_def)
  next
    case (Inr k)
    then have "inb_first inb = Inr (Hello k)"
      by (auto simp: read_cookie_def split: sum.splits client_message.splits)
    then show ?thesis using Inr Reading hears [of inb ck] denies [of inb ck]
      by (cases "k = ck") (auto simp: acceptor_resume_def)
  qed
next
  case (Welcoming inb)
  show ?thesis
  proof (cases "inb_welcome inb")
    case (Inl e)
    then show ?thesis using Welcoming returns [where m = s and a = "Stopped e"] by (simp add: acceptor_resume_def)
  next
    case (Inr u)
    show ?thesis
    proof (cases "flight s")
      case None
      then show ?thesis using Inr Welcoming waits by (simp add: acceptor_resume_def)
    next
      case (Some x)
      obtain c pc where x: "x = (c, pc)" by (cases x)
      obtain r x' where h: "hand_over (inb_stream inb) x = (r, x')" by (cases "hand_over (inb_stream inb) x")
      show ?thesis
      proof (cases r)
        case (Inl e)
        then show ?thesis
          using Inr Welcoming Some h returns [where m = "write_answer (inb_stream inb) (ServerMessage Welcome) s" and a = "Stopped e"]
          by (simp add: acceptor_resume_def Let_def)
      next
        case r: (Inr u')
        then show ?thesis
          using Inr Welcoming Some h hands [of inb c pc] hand_over_ok [of "inb_stream inb" c pc x'] x
          by (simp add: acceptor_resume_def Let_def)
      qed
    qed
  qed
next
  case (Refusing inb g)
  then show ?thesis
    using returns [where m = "write_answer (inb_stream inb) already_in_flight s" and a = Accepting] by (simp add: acceptor_resume_def)
next
  case (Negotiating inb)
  show ?thesis
  proof (cases "create_test inb")
    case (Inl e)
    then show ?thesis
      using Negotiating returns [where m = "if welcomed inb then write_answer (inb_stream inb) (ServerMessage Welcome) s else s" and a = Accepting]
      by (simp add: acceptor_resume_def Let_def)
  next
    case (Inr t)
    then have "welcomed inb"
      by (auto simp: create_test_def welcomed_def split: sum.splits)
    then show ?thesis using Inr Negotiating creates [of inb t] by (simp add: acceptor_resume_def Let_def)
  qed
qed (use waits in \<open>simp_all add: acceptor_resume_def\<close>)

lemma acceptor_resume_inv:
  assumes "tasks_inv h s"
  shows "tasks_inv h (acceptor_resume s)"
proof (cases rule: acceptor_resume_cases [of s])
  case waits
  then show ?thesis using assms by simp
next
  case (locks inb c pc ck)
  then have "cookie (test c) = ck" using assms by (auto simp: tasks_inv_def controller_ok_def)
  then show ?thesis using assms locks by (auto simp: tasks_inv_def acceptor_ok_def creating_def)
next
  case (refuses inb)
  then show ?thesis using assms by (auto simp: tasks_inv_def acceptor_ok_def)
next
  case (hears inb ck)
  then show ?thesis using assms by (auto simp: tasks_inv_def acceptor_ok_def creating_def)
next
  case (denies inb ck)
  then show ?thesis using assms by (auto simp: tasks_inv_def acceptor_ok_def creating_def)
next
  case (hands inb c pc)
  then have "inb \<in> set h" "inb_first inb = Inr (Hello (cookie (test c)))" "controller_ok h c pc"
    using assms by (auto simp: tasks_inv_def acceptor_ok_def creating_def)
  moreover have "connections (c\<lparr>mailbox := mailbox c @ [CreateStream (inb_stream inb)]\<rparr>)
      = insert (inb_stream inb) (connections c)"
    by (auto simp: connections_def)
  ultimately show ?thesis using hands by (auto simp: tasks_inv_def acceptor_ok_def controller_ok_def)
next
  case (creates inb t)
  then show ?thesis
    using create_test_ok [of inb t]
    by (auto simp: tasks_inv_def acceptor_ok_def controller_ok_def controller_new_def connections_def)
next
  case (returns m a)
  then show ?thesis using assms by (auto simp: tasks_inv_def acceptor_ok_def)
qed

text \<open>The moves of the other tasks.\<close>

lemma perform_cases:
  assumes "perform m s = Some t"
  obtains (arrive) inb where "m = Arrive inb" "acceptor_at s = Accepting" "t = accept_inbound inb s"
  | (accept) "m = Accept" "t = acceptor_resume s"
  | (control) ev c pc c' pc' where "m = Control ev" "flight s = Some (c, pc)" "pc \<noteq> Ended"
      "controller_resume ev (guard_held (acceptor_at s)) (c, pc) = (c', pc')"
      "t = s\<lparr>flight := Some (c', pc'), orphans := (if pc' = Ended then [] else
         orphans s @ dropped (streams (test c)) (streams (test c')))\<rparr>"
  | (finish) sid c pc where "m = Finish sid" "flight s = Some (c, pc)" "pc \<noteq> Ended" "live_worker sid c"
      "t = s\<lparr>flight := Some (end_worker sid c, pc)\<rparr>"
  | (orphan) sid c pc where "m = Orphan sid" "flight s = Some (c, pc)" "pc \<noteq> Ended" "sid \<in> set (orphans s)"
      "t = s\<lparr>orphans := remove1 sid (orphans s),
         flight := Some (snd (controller_try_send (StreamTerminated sid) c), pc)\<rparr>"
  | (cut) c pc where "m = Cut" "flight s = Some (c, pc)" "pc \<noteq> Ended"
      "t = s\<lparr>flight := Some (c\<lparr>test := (test c)\<lparr>control_broken := True\<rparr>\<rparr>, pc)\<rparr>"
  using assms
  by (cases m) (auto simp: perform_def split: if_splits option.splits prod.splits)

lemma try_send_same:
  "same_test c (snd (controller_try_send (StreamTerminated sid) c))"
  "connections (snd (controller_try_send (StreamTerminated sid) c)) = connections c"
  "test (snd (controller_try_send (StreamTerminated sid) c)) = test c"
  "length (mailbox c) \<le> INTERNAL_PROT_BUFFER \<Longrightarrow>
     length (mailbox (snd (controller_try_send (StreamTerminated sid) c))) \<le> INTERNAL_PROT_BUFFER"
  by (auto simp: controller_try_send_def same_test_def connections_def)

lemma tasks_inv_same:
  assumes "tasks_inv h s" "flight s = Some (c, pc)" "pc \<noteq> Ended" "flight t = Some (c', pc)"
    and "acceptor_at t = acceptor_at s" "same_test c c'" "connections c' = connections c"
    and "test_state (test c') = test_state (test c)"
    and "length (mailbox c) \<le> INTERNAL_PROT_BUFFER \<Longrightarrow> length (mailbox c') \<le> INTERNAL_PROT_BUFFER"
  shows "tasks_inv h t"
proof -
  have "controller_ok h c pc" using assms(1,2) by (simp add: tasks_inv_def)
  then have "controller_ok h c' pc"
    by (rule controller_ok_same) (use assms(6-9) \<open>controller_ok h c pc\<close> in \<open>auto simp: controller_ok_def\<close>)
  with assms(1-5) show ?thesis
    by (rule tasks_invI) (rule creating_same [OF assms(2,4,6,8)])
qed

lemma perform_inv:
  assumes "perform m s = Some t" "tasks_inv h s"
  shows "tasks_inv (h @ arrivals m) t"
  using assms(1)
proof (cases rule: perform_cases)
  case (arrive inb)
  then have "flight t = flight s" "acceptor_ok (h @ [inb]) t"
    by (auto simp: accept_inbound_def acceptor_ok_def alive_def split: option.splits)
  then show ?thesis
    using assms(2) controller_ok_history [of h _ _ "h @ [inb]"] arrive by (auto simp: tasks_inv_def)
next
  case accept
  then show ?thesis using acceptor_resume_inv assms(2) by simp
next
  case (control ev c pc c' pc')
  have "controller_ok h c pc" using assms(2) control(2) by (simp add: tasks_inv_def)
  then have ok: "controller_ok h c' pc'" by (rule controller_resume_ok [OF control(4)])
  have "flight t = Some (c', pc')" "acceptor_at t = acceptor_at s" using control(5) by simp_all
  moreover have "creating ck t" if "guard_held (acceptor_at s)" "creating ck s" for ck
    using creating_resume control(4) that control(2) calculation(1) by simp
  ultimately have "tasks_inv h t" using ok by (intro tasks_invI [OF assms(2) control(2,3)]) auto
  then show ?thesis using control(1) by simp
next
  case (finish sid c pc)
  have "tasks_inv h t"
    by (rule tasks_inv_same [OF assms(2) finish(2,3), of _ "end_worker sid c"])
      (use connections_end_worker [where sid = sid and c = c] finish(5) in simp_all)
  then show ?thesis using finish(1) by simp
next
  case (orphan sid c pc)
  have "tasks_inv h t"
    by (rule tasks_inv_same [OF assms(2) orphan(2,3), of _ "snd (controller_try_send (StreamTerminated sid) c)"])
      (use try_send_same [where sid = sid and c = c] orphan(5) in simp_all)
  then show ?thesis using orphan(1) by simp
next
  case (cut c pc)
  have "tasks_inv h t"
    by (rule tasks_inv_same [OF assms(2) cut(2,3), of _ "c\<lparr>test := (test c)\<lparr>control_broken := True\<rparr>\<rparr>"])
      (use cut(4) in \<open>simp_all add: same_test_def connections_def\<close>)
  then show ?thesis using cut(1) by simp
qed

lemma interleaved_inv: "interleaved h s \<Longrightarrow> tasks_inv h s"
proof (induction rule: interleaved.induct)
  case init
  show ?case by (simp add: tasks_inv_def tasks_init_def acceptor_ok_def)
next
  case (move h s m t)
  then show ?case by (simp add: perform_inv)
qed

section \<open>Workers wait for the load\<close>

text \<open>Before the state \<open>Running\<close> is stored, nothing has been sent to a worker.\<close>

definition idle_workers :: "controller \<Rightarrow> bool" where
  "idle_workers c \<longleftrightarrow> list_all (\<lambda>(k, w). channel w = []) (streams (test c))"

definition not_started :: "controller \<Rightarrow> point \<Rightarrow> bool" where
  "not_started c pc \<longleftrightarrow> ((\<exists>ck. test_state (test c) = CreateStreams ck) \<or> test_state (test c) = TestStart
     \<longrightarrow> idle_workers c)"

lemma idle_workers_cong: "streams (test c') = streams (test c) \<Longrightarrow> idle_workers c' = idle_workers c"
  by (simp add: idle_workers_def)

lemma idle_workers_subset: "idle_workers c \<Longrightarrow> set (streams (test c')) \<subseteq> set (streams (test c)) \<Longrightarrow> idle_workers c'"
  unfolding idle_workers_def list_all_iff by blast

lemma receive_idle:
  assumes "receive m c old = (c', pc')" "idle_workers c"
  shows "idle_workers c'"
proof (cases m)
  case (CreateStream st)
  then have c': "c' = create_and_register_stream_worker st c"
    using assms(1) by (auto simp: receive_def Let_def)
  have "channel w = []" if "(k, w) \<in> set (streams (test c'))" for k w
  proof -
    have "(k, w) \<in> insert (length (streams (test c)), fresh_ref (test c) (length (streams (test c))) st) (set (streams (test c)))"
      using that set_update_subset by (fastforce simp: c' register_eq)
    then show ?thesis using assms(2) by (auto simp: idle_workers_def list_all_iff fresh_ref_def)
  qed
  then show ?thesis by (auto simp: idle_workers_def list_all_iff)
next
  case (StreamTerminated sid)
  then have "streams (test c') = AList.delete sid (streams (test c))"
    using assms(1) by (auto simp: receive_def Let_def after_termination_frame split: option.splits)
  then show ?thesis by (intro idle_workers_subset [OF assms(2)]) (simp add: set_delete_subset)
qed

lemma controller_resume_idle:
  assumes "controller_resume ev locked (c, pc) = (c', pc')" "controller_ok h c pc" "not_started c pc"
  shows "not_started c' pc'"
proof (cases "test_state (test c') = TestStart \<or> (\<exists>ck. test_state (test c') = CreateStreams ck)")
  case True
  have "test_state (test c) \<noteq> Running \<and> test_state (test c) \<noteq> ExchangeResults"
    using controller_resume_resumes [OF assms(1)] assms(2) True
    by (auto simp: resumes_def controller_ok_def next_state_def)
  then have idle: "idle_workers c" and st: "test_state (test c) = TestStart \<or> (\<exists>ck. test_state (test c) = CreateStreams ck)"
    using assms(2,3) by (auto simp: not_started_def controller_ok_def)
  have "idle_workers c'"
  proof (cases pc)
    case (Top old)
    then have "c' = c" using assms(1) st by (auto simp: controller_resume_def split: if_splits)
    then show ?thesis using idle by simp
  next
    case (Announcing st' strict old)
    then have "streams (test c') = streams (test c)"
      using assms(1) by (auto simp: controller_resume_def control_send_def split: if_splits)
    then show ?thesis using idle idle_workers_cong by blast
  next
    case (Storing st' old)
    then have "streams (test c') = streams (test c)"
      using assms(1) by (auto simp: controller_resume_def split: if_splits)
    then show ?thesis using idle idle_workers_cong by blast
  next
    case (Receiving old)
    then show ?thesis
      using assms(1) idle receive_idle idle_workers_cong [of "c\<lparr>mailbox := _\<rparr>" c]
      by (auto simp: controller_resume_def split: list.splits)
  next
    case (Joining sid w old)
    then have "test c' = test c"
      using assms(1) join_terminated_frame
      by (auto simp: controller_resume_def after_termination_frame split: sum.splits)
    then show ?thesis using idle idle_workers_cong [of c' c] by simp
  next
    case Exchanging
    then show ?thesis using assms(2) st by (auto simp: controller_ok_def)
  qed (use assms(1) idle in \<open>auto simp: controller_resume_def split: if_splits\<close>)
  then show ?thesis by (simp add: not_started_def)
next
  case False
  then show ?thesis by (auto simp: not_started_def)
qed

lemma end_worker_idle: "idle_workers (end_worker sid c) = idle_workers c"
proof -
  have "list_all (\<lambda>(k, w). channel w = []) (map (\<lambda>(k, w). (k, if k = sid then w\<lparr>channel_closed := True\<rparr> else w)) m)
      = list_all (\<lambda>(k, w). channel w = []) m" for m :: "(nat \<times> stream_worker_ref) list"
    by (induction m) (auto split: if_splits)
  then show ?thesis by (simp add: idle_workers_def end_worker_def controller_try_send_def)
qed

definition idle_inv :: "tasks \<Rightarrow> bool" where
  "idle_inv s \<longleftrightarrow> (\<forall>c pc. flight s = Some (c, pc) \<longrightarrow> not_started c pc)"

lemma idle_inv_cong: "flight t = flight s \<Longrightarrow> idle_inv t = idle_inv s"
  by (simp add: idle_inv_def)

lemma acceptor_resume_idle:
  assumes "idle_inv s"
  shows "idle_inv (acceptor_resume s)"
proof (cases rule: acceptor_resume_cases [of s])
  case (hands inb c pc)
  then show ?thesis using assms by (simp add: idle_inv_def not_started_def idle_workers_def)
next
  case (creates inb t)
  then have "streams t = []" using create_test_ok [of inb t] by auto
  then show ?thesis
    using creates(3) by (simp add: idle_inv_def not_started_def idle_workers_def controller_new_def)
qed (use assms idle_inv_cong [of "acceptor_resume s" s] in simp_all)

lemma perform_idle:
  assumes "perform m s = Some t" "tasks_inv h s" "idle_inv s"
  shows "idle_inv t"
  using assms(1)
proof (cases rule: perform_cases)
  case (arrive inb)
  then show ?thesis using assms(3) by (simp add: idle_inv_def accept_inbound_def)
next
  case accept
  then show ?thesis using acceptor_resume_idle assms(3) by simp
next
  case (control ev c pc c' pc')
  have "not_started c' pc'"
    by (rule controller_resume_idle [OF control(4), of h]) (use assms(2,3) control(2) in \<open>simp_all add: idle_inv_def tasks_inv_def\<close>)
  then show ?thesis using control by (simp add: idle_inv_def)
next
  case (finish sid c pc)
  then show ?thesis
    using assms(3) by (simp add: idle_inv_def not_started_def end_worker_idle connections_end_worker)
next
  case (orphan sid c pc)
  then show ?thesis
    using assms(3) idle_workers_cong [of "snd (controller_try_send (StreamTerminated sid) c)" c]
    by (simp add: idle_inv_def not_started_def try_send_same)
next
  case (cut c pc)
  then show ?thesis using assms(3) by (simp add: idle_inv_def not_started_def idle_workers_def)
qed

lemma interleaved_idle: "interleaved h s \<Longrightarrow> idle_inv s"
proof (induction rule: interleaved.induct)
  case init
  show ?case by (simp add: idle_inv_def tasks_init_def)
next
  case (move h s m t)
  then show ?case using perform_idle interleaved_inv by blast
qed

text \<open>While the accept loop waits, the other tasks leave the locked test in its state.\<close>

lemma perform_waits:
  assumes "perform m s = Some t" "m \<noteq> Accept" "acceptor_at s = Reading inb ck" "creating ck s"
  shows "acceptor_at t = Reading inb ck \<and> answers t = answers s \<and> creating ck t"
  using assms(1)
proof (cases rule: perform_cases)
  case (control ev c pc c' pc')
  then have "creating ck t"
    using creating_resume [of ev c pc c' pc' s ck t] assms(3,4) by simp
  then show ?thesis using control assms(3) by simp
next
  case (finish sid c pc)
  then show ?thesis
    using creating_same [OF finish(2), of t "end_worker sid c" ck] connections_end_worker [where sid = sid and c = c] assms(3,4)
    by simp
next
  case (orphan sid c pc)
  then show ?thesis
    using creating_same [OF orphan(2), of t "snd (controller_try_send (StreamTerminated sid) c)" ck]
      try_send_same [where sid = sid and c = c] assms(3,4)
    by simp
next
  case (cut c pc)
  then show ?thesis
    using creating_same [OF cut(2), of t "c\<lparr>test := (test c)\<lparr>control_broken := True\<rparr>\<rparr>" ck] assms(3,4)
    by (simp add: same_test_def)
qed (use assms in simp_all)

lemma schedule_waits:
  assumes "schedule ms s = Some t" "Accept \<notin> set ms" "acceptor_at s = Reading inb ck" "creating ck s"
  shows "acceptor_at t = Reading inb ck \<and> answers t = answers s \<and> creating ck t"
  using assms
proof (induction ms arbitrary: s)
  case (Cons m ms)
  then obtain u where u: "perform m s = Some u" "schedule ms u = Some t" by (auto split: option.splits)
  then have "acceptor_at u = Reading inb ck \<and> answers u = answers s \<and> creating ck u"
    using perform_waits Cons.prems(2-4) by auto
  then show ?case using Cons.IH [OF u(2)] Cons.prems(2) by simp
qed simp

section \<open>What the client is told\<close>

inductive announced_states :: "string \<Rightarrow> state \<Rightarrow> state list \<Rightarrow> bool" for ck where
  start: "announced_states ck TestStart []"
| further: "announced_states ck st ss \<Longrightarrow> next_state ck st st' \<Longrightarrow> announced_states ck st' (ss @ [st'])"

inductive_cases announced_states_snocE: "announced_states ck st (ss @ [s])"

definition told :: "perf_test \<Rightarrow> state list \<Rightarrow> bool" where
  "told t ss \<longleftrightarrow> control_sent t = ToClient Welcome # map (\<lambda>s. ToClient (SetState s)) ss"

text \<open>What has been announced is stored, or about to be.\<close>

definition announces :: "controller \<Rightarrow> point \<Rightarrow> bool" where
  "announces c pc \<longleftrightarrow>
     (\<exists>ss. case pc of
        Ended \<Rightarrow> True
      | Storing st old \<Rightarrow> told (test c) (ss @ [st]) \<and> announced_states (cookie (test c)) (test_state (test c)) ss
      | _ \<Rightarrow> told (test c) ss \<and> announced_states (cookie (test c)) (test_state (test c)) ss)"

lemma announces_frame:
  assumes "announces c pc" "control_sent (test c') = control_sent (test c)" "same_test c c'"
    and "test_state (test c') = test_state (test c)" "\<forall>st old. pc \<noteq> Storing st old" "pc \<noteq> Ended"
    and "\<forall>st old. pc' \<noteq> Storing st old"
  shows "announces c' pc'"
  using assms by (cases pc; cases pc') (auto simp: announces_def told_def same_test_def)

lemma receive_sent:
  assumes "receive m c old = (c', pc')"
  shows "control_sent (test c') = control_sent (test c) \<and> (\<forall>st old. pc' \<noteq> Storing st old)"
  using assms
  by (auto simp: receive_def Let_def after_termination_frame register_eq split: controller_message.splits option.splits if_splits)

lemma controller_resume_announces:
  assumes "controller_resume ev locked (c, pc) = (c', pc')" "controller_ok h c pc" "announces c pc"
  shows "announces c' pc'"
proof -
  note frame = controller_resume_resumes [OF assms(1), unfolded resumes_def]
  have keep: ?thesis if "control_sent (test c') = control_sent (test c)" "\<forall>st old. pc \<noteq> Storing st old"
    "pc \<noteq> Ended" "\<forall>st old. pc' \<noteq> Storing st old"
    by (rule announces_frame [OF assms(3) that(1) _ _ that(2-4)]) (use frame that(2) in auto)
  show ?thesis
  proof (cases pc)
    case Starting
    then show ?thesis using assms(1) keep by (auto simp: controller_resume_def split: if_splits)
  next
    case (Top old)
    then have "control_sent (test c') = control_sent (test c) \<and> (\<forall>st old. pc' \<noteq> Storing st old)"
      using assms(1) by (auto simp: controller_resume_def split: if_splits state.splits)
    then show ?thesis using keep Top by simp
  next
    case (Announcing st strict old)
    show ?thesis
    proof (cases "control_broken (test c)")
      case True
      then have "c' = c" "pc' \<in> {Ended, Top old}"
        using assms(1) Announcing by (auto simp: controller_resume_def control_send_def split: if_splits)
      then show ?thesis using keep Announcing by auto
    next
      case False
      then have "control_sent (test c') = control_sent (test c) @ [ToClient (SetState st)]" "pc' = Storing st old"
          "test_state (test c') = test_state (test c)" "cookie (test c') = cookie (test c)"
        using assms(1) Announcing by (auto simp: controller_resume_def control_send_def)
      then show ?thesis using assms(3) Announcing by (auto simp: announces_def told_def)
    qed
  next
    case (Storing st old)
    show ?thesis
    proof (cases locked)
      case True
      then show ?thesis using assms Storing by (simp add: controller_resume_def)
    next
      case False
      then have c': "c' = c\<lparr>test := (test c)\<lparr>test_state := st\<rparr>\<rparr>" "pc' = Top old"
        using assms(1) Storing by (simp_all add: controller_resume_def)
      obtain ss where ss: "told (test c) (ss @ [st])" "announced_states (cookie (test c)) (test_state (test c)) ss"
        using assms(3) Storing by (auto simp: announces_def)
      have "next_state (cookie (test c)) (test_state (test c)) st"
        using assms(2) Storing by (simp add: controller_ok_def)
      then have "announced_states (cookie (test c)) st (ss @ [st])"
        using ss(2) by (rule announced_states.further [rotated])
      then show ?thesis using ss(1) by (auto simp: announces_def told_def c' intro: exI [of _ "ss @ [st]"])
    qed
  next
    case (Receiving old)
    then show ?thesis
      using assms(1) keep receive_sent by (auto simp: controller_resume_def split: list.splits)
  next
    case (Joining sid w old)
    then have "test c' = test c \<and> (\<forall>st old. pc' \<noteq> Storing st old)"
      using assms(1) join_terminated_frame
      by (auto simp: controller_resume_def after_termination_frame split: sum.splits)
    then show ?thesis using keep Joining by simp
  next
    case Exchanging
    then have "pc' = Ended" using assms(1) by (auto simp: controller_resume_def split: prod.splits sum.splits)
    then show ?thesis by (simp add: announces_def)
  next
    case Ended
    then show ?thesis using assms by (simp add: controller_resume_def)
  qed
qed

definition announces_inv :: "tasks \<Rightarrow> bool" where
  "announces_inv s \<longleftrightarrow> (\<forall>c pc. flight s = Some (c, pc) \<longrightarrow> announces c pc)"

lemma announces_same:
  assumes "announces c pc" "control_sent (test c') = control_sent (test c)" "cookie (test c') = cookie (test c)"
    and "test_state (test c') = test_state (test c)"
  shows "announces c' pc"
  using assms by (cases pc) (simp_all add: announces_def told_def)

lemma acceptor_resume_announces:
  assumes "announces_inv s"
  shows "announces_inv (acceptor_resume s)"
proof (cases rule: acceptor_resume_cases [of s])
  case (hands inb c pc)
  then show ?thesis using assms announces_same [of c pc "c\<lparr>mailbox := mailbox c @ [CreateStream (inb_stream inb)]\<rparr>"]
    by (simp add: announces_inv_def)
next
  case (creates inb t)
  then show ?thesis
    using create_test_ok [of inb t]
    by (auto simp: announces_inv_def announces_def told_def controller_new_def intro: announced_states.start)
qed (use assms in \<open>simp_all add: announces_inv_def\<close>)

lemma perform_announces:
  assumes "perform m s = Some t" "tasks_inv h s" "announces_inv s"
  shows "announces_inv t"
  using assms(1)
proof (cases rule: perform_cases)
  case (arrive inb)
  then show ?thesis using assms(3) by (simp add: announces_inv_def accept_inbound_def)
next
  case accept
  then show ?thesis using acceptor_resume_announces assms(3) by simp
next
  case (control ev c pc c' pc')
  have "announces c' pc'"
    by (rule controller_resume_announces [OF control(4), of h])
      (use assms(2,3) control(2) in \<open>simp_all add: announces_inv_def tasks_inv_def\<close>)
  then show ?thesis using control by (simp add: announces_inv_def)
next
  case (finish sid c pc)
  have "announces (end_worker sid c) pc"
    by (rule announces_same [of c])
      (use assms(3) finish(2) in \<open>simp_all add: announces_inv_def end_worker_def controller_try_send_def\<close>)
  then show ?thesis using finish by (simp add: announces_inv_def)
next
  case (orphan sid c pc)
  have "announces (snd (controller_try_send (StreamTerminated sid) c)) pc"
    by (rule announces_same [of c])
      (use assms(3) orphan(2) in \<open>simp_all add: announces_inv_def try_send_same\<close>)
  then show ?thesis using orphan by (simp add: announces_inv_def)
next
  case (cut c pc)
  have "announces (c\<lparr>test := (test c)\<lparr>control_broken := True\<rparr>\<rparr>) pc"
    by (rule announces_same [of c]) (use assms(3) cut(2) in \<open>simp_all add: announces_inv_def\<close>)
  then show ?thesis using cut by (simp add: announces_inv_def)
qed

lemma interleaved_announces: "interleaved h s \<Longrightarrow> announces_inv s"
proof (induction rule: interleaved.induct)
  case init
  show ?case by (simp add: announces_inv_def tasks_init_def)
next
  case (move h s m t)
  then show ?case using perform_announces interleaved_inv by blast
qed

lemma announced_states_last: "announced_states ck st ss \<Longrightarrow> st = last (TestStart # ss)"
  by (induction rule: announced_states.induct) auto

lemma announced_states_form:
  "announced_states ck st ss \<Longrightarrow> \<exists>k n e. ss = replicate k (CreateStreams ck) @ replicate n Running @ replicate e ExchangeResults
    \<and> k \<le> 1 \<and> e \<le> 1 \<and> (k = 0 \<longrightarrow> n = 0 \<and> e = 0)
    \<and> st = (if e = 1 then ExchangeResults else if 0 < n then Running else if k = 1 then CreateStreams ck else TestStart)"
proof (induction rule: announced_states.induct)
  case start
  show ?case by simp
next
  case (further st ss st')
  then obtain k n e where ss: "ss = replicate k (CreateStreams ck) @ replicate n Running @ replicate e ExchangeResults"
      "k \<le> 1" "e \<le> 1" "k = 0 \<longrightarrow> n = 0 \<and> e = 0"
      "st = (if e = 1 then ExchangeResults else if 0 < n then Running else if k = 1 then CreateStreams ck else TestStart)"
    by blast
  from further.hyps(2) consider "st = TestStart" "st' = CreateStreams ck" | "st \<in> {CreateStreams ck, Running}" "st' = Running"
    | "st \<in> {CreateStreams ck, Running}" "st' = ExchangeResults"
    by (auto simp: next_state_def)
  then show ?case
  proof cases
    case 1
    then have "k = 0" "n = 0" "e = 0" using ss by (auto split: if_splits)
    then show ?thesis using 1 ss(1) by (intro exI [of _ 1] exI [of _ 0]) simp
  next
    case 2
    then have "k = 1" "e = 0" using ss by (auto split: if_splits)
    then show ?thesis using 2 ss(1)
      by (intro exI [of _ 1] exI [of _ "Suc n"] exI [of _ 0]) (simp add: replicate_append_same)
  next
    case 3
    then have "k = 1" "e = 0" using ss by (auto split: if_splits)
    then show ?thesis using 3 ss(1)
      by (intro exI [of _ 1] exI [of _ n]) simp
  qed
qed

lemma announced_statesE:
  assumes "announced_states ck st ss"
  obtains k n e where "ss = replicate k (CreateStreams ck) @ replicate n Running @ replicate e ExchangeResults"
    "k \<le> 1" "e \<le> 1" "k = 0 \<longrightarrow> ss = []"
  using announced_states_form [OF assms] that by fastforce

end
