(* ===== verification/Delivery.thy ===== *)
theory Delivery
  imports ServerInv
begin

text \<open>
  Delivery of the termination notifications: the channel to the controller holds five messages and a
  worker that ends only tries to send. An invariant counts the messages that may still be sent; up to
  five data connections none is lost and a running test is never stuck. More than five workers that end at
  once, or a control connection that breaks, leave the server waiting for ever.
\<close>

section \<open>The table of streams\<close>

definition open_count :: "(nat \<times> stream_worker_ref) list \<Rightarrow> nat" where
  "open_count m = length (filter (\<lambda>(k, w). \<not> channel_closed w) m)"

text \<open>The two ways a broadcast leaves the table: as it was, or with messages added.\<close>

definition same_workers :: "(nat \<times> stream_worker_ref) list \<Rightarrow> (nat \<times> stream_worker_ref) list \<Rightarrow> bool" where
  "same_workers m m' \<longleftrightarrow> (\<exists>f. m' = map (\<lambda>(k, w). (k, f w)) m
     \<and> (\<forall>w. task (f w) = task w \<and> channel_closed (f w) = channel_closed w))"

lemma same_workers_refl [simp]: "same_workers m m"
  unfolding same_workers_def by (rule exI [of _ "\<lambda>w. w"]) simp

lemma map_of_map_snd: "map_of (map (\<lambda>(k, w). (k, f w)) m) k = map_option f (map_of m k)"
  by (induction m) auto

lemma same_workersD:
  assumes "same_workers m m'"
  shows "open_count m' = open_count m" "dropped old m' = dropped old m" "keys m' = keys m"
    "list_all (\<lambda>(k, w). channel_closed w \<longrightarrow> P k) m' = list_all (\<lambda>(k, w). channel_closed w \<longrightarrow> P k) m"
proof -
  obtain f where m': "m' = map (\<lambda>(k, w). (k, f w)) m"
      and f: "\<And>w. task (f w) = task w" "\<And>w. channel_closed (f w) = channel_closed w"
    using assms unfolding same_workers_def by blast
  have c: "(case map_of m' k of None \<Rightarrow> True | Some w' \<Rightarrow> task w' \<noteq> task w)
      = (case map_of m k of None \<Rightarrow> True | Some w' \<Rightarrow> task w' \<noteq> task w)" for k w
    by (simp add: m' map_of_map_snd f split: option.split)
  show "dropped old m' = dropped old m" unfolding dropped_def c ..
  show "open_count m' = open_count m"
    by (simp add: open_count_def m' filter_map comp_def case_prod_unfold f)
  show "keys m' = keys m" by (simp add: m' comp_def case_prod_unfold)
  show "list_all (\<lambda>(k, w). channel_closed w \<longrightarrow> P k) m' = list_all (\<lambda>(k, w). channel_closed w \<longrightarrow> P k) m"
    by (simp add: m' list_all_iff case_prod_unfold f)
qed

lemma same_workers_broadcast:
  "same_workers (streams (test c)) (streams (test (broadcast_to_streams m c)))"
  unfolding same_workers_def broadcast_to_streams_def
  by (rule exI [of _ "\<lambda>w. snd (worker_try_send m w)"]) (simp add: worker_try_send_def)

lemma turns_server_streams:
  assumes "test_role (test c) = Server" "controller_turns ev old c = Wait c' s"
  shows "same_workers (streams (test c)) (streams (test c'))"
proof -
  have s: "s \<notin> {TestStart, ExchangeResults}" "s = (if test_state (test c) = TestStart
        then CreateStreams (cookie (test c)) else test_state (test c))"
    using turns_server [OF assms] by auto
  show ?thesis
  proof (cases "test_state (test c)")
    case TestStart
    show ?thesis
    proof (cases "control_broken (test c)")
      case True
      then show ?thesis using assms TestStart
        by (simp add: controller_turns.simps [of ev old c] controller_turn_def Let_def set_state_broken)
    next
      case False
      then have "streams (test c') = streams (test c)"
        using assms TestStart by (auto simp: turns_server_start Let_def)
      then show ?thesis by simp
    qed
  next
    case (CreateStreams k)
    then show ?thesis using assms by (simp add: turns_server_create)
  next
    case Running
    then show ?thesis
      using assms(2) turns_running [of c ev] turns_running_start [of c old ev]
        same_workers_broadcast [of "print Header c" StartLoad]
      by (cases "old = Running") auto
  next
    case ExchangeResults
    with s show ?thesis by simp
  next
    case DisplayResults
    then have "controller_turn ev old c = Wait c DisplayResults" by (simp add: controller_turn_def Let_def)
    then show ?thesis using assms by (simp add: controller_turns.simps [of ev old c])
  qed
qed

lemma process_streams:
  assumes "process_internal_message join (Some m) c = (Inr (), c')" "test_role (test c) = Server"
  shows "case m of
      CreateStream s \<Rightarrow> streams (test c') = AList.update (length (streams (test c)))
        (fresh_ref (test c) (length (streams (test c))) s) (streams (test c))
    | StreamTerminated sid \<Rightarrow> streams (test c') = AList.delete sid (streams (test c))"
proof (cases m)
  case (CreateStream s)
  let ?c = "create_and_register_stream_worker s c"
  have "streams (test c') = streams (test ?c)"
    using assms CreateStream set_state_frame [of Running "test ?c"]
    by (auto simp: process_internal_message_def accept_stream_def Let_def split: if_splits prod.splits)
  then show ?thesis using CreateStream by (simp add: register_eq)
next
  case (StreamTerminated sid)
  define c1 where "c1 = c\<lparr>test := (test c)\<lparr>streams := AList.delete sid (streams (test c))\<rparr>\<rparr>"
  obtain t where t: "set_state ExchangeResults (test c1) = (fst (set_state ExchangeResults (test c1)), t)"
      "t = snd (set_state ExchangeResults (test c1))"
    by simp
  have "streams t = streams (test c1)" using set_state_frame [OF t(1)] by simp
  moreover obtain x where "c' = c1\<lparr>stream_results := x\<rparr> \<or> c' = c1\<lparr>stream_results := x, test := t\<rparr>"
    using terminated_cases [OF assms(1) [unfolded StreamTerminated] c1_def] t(2) by blast
  ultimately show ?thesis using StreamTerminated by (auto simp: c1_def)
qed

lemma open_count_update:
  assumes "wf_map m"
  shows "open_count (AList.update k w m) + length (dropped m (AList.update k w m)) \<le> Suc (open_count m)"
proof -
  let ?m = "AList.update k w m"
  let ?old = "filter (\<lambda>(k', w'). k' = k \<and> \<not> channel_closed w') m"
  have d: "length (dropped m ?m) \<le> length ?old"
  proof -
    have kept: "map_of ?m k' = Some w'" if "(k', w') \<in> set m" "k' \<noteq> k" for k' w'
      using that assms by (simp add: update_conv' wf_map_def)
    have "dropped m ?m = map fst (filter (\<lambda>(k', w'). case map_of ?m k' of None \<Rightarrow> True
        | Some v \<Rightarrow> task v \<noteq> task w') ?old)"
      unfolding dropped_def filter_filter
    proof (intro arg_cong [of _ _ "map fst"] filter_cong refl)
      fix x
      assume x: "x \<in> set m"
      obtain k' w' where kw: "x = (k', w')" by (cases x)
      show "(case x of (k', w') \<Rightarrow> \<not> channel_closed w' \<and> (case map_of ?m k' of None \<Rightarrow> True
            | Some v \<Rightarrow> task v \<noteq> task w'))
          = ((case x of (k', w') \<Rightarrow> k' = k \<and> \<not> channel_closed w') \<and>
             (case x of (k', w') \<Rightarrow> case map_of ?m k' of None \<Rightarrow> True | Some v \<Rightarrow> task v \<noteq> task w'))"
        using kept [of k' w'] x kw by (cases "k' = k") auto
    qed
    then show ?thesis by (simp only: length_map length_filter_le)
  qed
  have "open_count (AList.update k w m) + length (filter (\<lambda>(k', w'). k' = k \<and> \<not> channel_closed w') m)
      \<le> Suc (open_count m)"
    using assms
  proof (induction m)
    case (Cons x m)
    obtain k' w' where x: "x = (k', w')" by (cases x)
    have wf: "wf_map m" and nk: "k' \<notin> set (keys m)" using Cons.prems x by (auto simp: wf_map_def)
    show ?case
    proof (cases "k' = k")
      case True
      have "filter (\<lambda>(k', w'). k' = k \<and> \<not> channel_closed w') m = []"
        using nk True by (force simp: filter_empty_conv)
      then show ?thesis using x True by (simp add: open_count_def)
    next
      case False
      then show ?thesis using Cons.IH [OF wf] x by (simp add: open_count_def)
    qed
  qed (simp add: open_count_def)
  with d show ?thesis by linarith
qed

lemma open_count_delete:
  assumes "wf_map m"
  shows "open_count (AList.delete k m) + length (dropped m (AList.delete k m)) \<le> open_count m"
proof -
  let ?m = "AList.delete k m"
  have "dropped m ?m = map fst (filter (\<lambda>(k', w). \<not> channel_closed w \<and> k' = k) m)"
    unfolding dropped_def using assms
    by (intro arg_cong [of _ _ "map fst"] filter_cong)
      (auto simp: delete_conv' wf_map_def split: if_splits)
  then have "open_count ?m + length (dropped m ?m)
      = length (filter (\<lambda>(k', w). \<not> channel_closed w) (filter (\<lambda>x. fst x \<noteq> k) m))
        + length (filter (\<lambda>x. \<not> fst x \<noteq> k) (filter (\<lambda>(k', w). \<not> channel_closed w) m))"
    by (simp add: open_count_def AList.delete_eq case_prod_unfold conj_commute eq_commute [of k])
  also have "\<dots> = length (filter (\<lambda>x. fst x \<noteq> k) (filter (\<lambda>(k', w). \<not> channel_closed w) m))
        + length (filter (\<lambda>x. \<not> fst x \<noteq> k) (filter (\<lambda>(k', w). \<not> channel_closed w) m))"
    by (simp add: case_prod_unfold conj_commute)
  also have "\<dots> = open_count m"
    unfolding open_count_def by (rule sum_length_filter_compl)
  finally show ?thesis by simp
qed

section \<open>Counting what may still be sent to the controller\<close>

text \<open>
  Every message the controller may still get is in its mailbox, or will be sent by a task that
  runs. Each of them goes back to a connection that presented the cookie of the test.
\<close>

definition pending :: "controller \<Rightarrow> nat list \<Rightarrow> nat" where
  "pending c ds = length (mailbox c) + length ds + open_count (streams (test c))"

definition hello_count :: "string \<Rightarrow> inbound list \<Rightarrow> nat" where
  "hello_count ck h = length (filter (\<lambda>inb. case inb_first inb of Inr (Hello ck') \<Rightarrow> ck' = ck | _ \<Rightarrow> False) h)"

lemma hello_count_snoc:
  "hello_count ck (h @ [inb]) = hello_count ck h
     + (case inb_first inb of Inr (Hello ck') \<Rightarrow> if ck' = ck then 1 else 0 | _ \<Rightarrow> 0)"
  by (simp add: hello_count_def split: sum.split client_message.split)

definition announced :: "controller \<Rightarrow> bool" where
  "announced c \<longleftrightarrow> list_all (\<lambda>(k, w). channel_closed w \<longrightarrow> StreamTerminated k \<in> set (mailbox c)) (streams (test c))"

text \<open>A running test without streams has failed to tell its client.\<close>

definition delivery_ok :: "inbound list \<Rightarrow> controller \<Rightarrow> nat list \<Rightarrow> bool" where
  "delivery_ok h c ds \<longleftrightarrow> wf_map (streams (test c))
     \<and> Suc (pending c ds) \<le> hello_count (cookie (test c)) h
     \<and> (hello_count (cookie (test c)) h \<le> 6 \<longrightarrow> announced c)
     \<and> (test_state (test c) = Running \<and> streams (test c) = [] \<longrightarrow> control_broken (test c))"

definition delivery_inv :: "inbound list \<Rightarrow> server \<Rightarrow> bool" where
  "delivery_inv h srv \<longleftrightarrow> server_inv h srv \<and> (case in_flight srv of
      None \<Rightarrow> detached srv = []
    | Some (c, ph) \<Rightarrow> delivery_ok h c (detached srv))"

lemma wf_same_workers: "same_workers m m' \<Longrightarrow> wf_map m' = wf_map m"
  using same_workersD(3) unfolding wf_map_def by metis

lemma accept_detached:
  assumes "serve_connection inb srv = (Inr (), srv')"
  shows "detached srv' = detached srv"
  using assms
  by (auto simp: serve_connection_def reply_def Let_def split: option.splits sum.splits prod.splits
      state.splits if_splits)

lemma accept_delivery:
  assumes "serve_connection inb srv = (Inr (), srv')" "delivery_inv h srv"
  shows "delivery_inv (h @ [inb]) srv'"
proof -
  have inv: "server_inv (h @ [inb]) srv'" using accept_inv assms by (simp add: delivery_inv_def)
  note det = accept_detached [OF assms(1)]
  show ?thesis using assms(1)
  proof (cases rule: serve_connection_cases)
    case (created t)
    then obtain ck p where "inb_first inb = Inr (Hello ck)"
        "t = perf_test_new None ck ([ToClient Welcome], False) Server p"
      using create_test_ok by blast
    then show ?thesis
      using created det inv assms(2)
      by (simp add: delivery_inv_def delivery_ok_def pending_def open_count_def announced_def
          controller_new_def hello_count_snoc)
  next
    case (queued c ph)
    then obtain ck where ck: "test_state (test c) = CreateStreams ck" by blast
    have "flight_ok h c ph" using assms(2) queued(1) by (simp add: delivery_inv_def server_inv_def)
    then have "ck = cookie (test c)" using ck by (auto simp: flight_ok_def split: phase.splits)
    then have "hello_count (cookie (test c)) (h @ [inb]) = Suc (hello_count (cookie (test c)) h)"
      using queued(4) ck by (simp add: hello_count_snoc)
    moreover have "announced c \<Longrightarrow> announced (c\<lparr>mailbox := mailbox c @ [CreateStream (inb_stream inb)]\<rparr>)"
      by (auto simp: announced_def list_all_iff)
    ultimately show ?thesis
      using queued(1,6) det inv assms(2)
      by (simp add: delivery_inv_def delivery_ok_def pending_def)
  next
    case unchanged
    have "hello_count ck h \<le> hello_count ck (h @ [inb])" for ck by (simp add: hello_count_def)
    then show ?thesis
      using unchanged det inv assms(2)
      by (auto simp: delivery_inv_def delivery_ok_def split: option.splits intro: order_trans)
  qed
qed


lemma process_last:
  assumes "process_internal_message join (Some (StreamTerminated sid)) c = (Inr (), c')"
    and "test_role (test c) = Server" "test_state (test c') = Running" "streams (test c') = []"
  shows "control_broken (test c')"
proof -
  have kept: "test d = test c1" if "join_terminated join sid handle c1 = Inr d" for handle c1 d
    using that unfolding join_terminated_def by (auto split: option.splits join_outcome.splits sum.splits)
  have st: "control_broken (snd (set_state ExchangeResults t))"
    if "test_state (snd (set_state ExchangeResults t)) = Running" for t
    by (rule set_state_cases [of t ExchangeResults]) (use that in auto)
  show ?thesis
    using assms kept st set_state_frame
    by (auto simp: process_internal_message_def stream_terminated_def Let_def
        split: sum.splits if_splits)
qed

lemma turns_running_broken:
  assumes "controller_turns ev old c = Wait c' s" "test_state (test c) = Running"
  shows "control_broken (test c') = control_broken (test c)"
  using assms turns_running [of c ev] turns_running_start [of c old ev]
  by (cases "old = Running") (auto simp: broadcast_to_streams_def)

lemma process_delivery:
  assumes "process_internal_message join (Some m) (c\<lparr>mailbox := ms\<rparr>) = (Inr (), c')" "mailbox c = m # ms"
    and "test_role (test c) = Server" "wf_map (streams (test c))"
  shows "wf_map (streams (test c'))
    \<and> pending c' (ds @ dropped (streams (test c)) (streams (test c'))) \<le> pending c ds
    \<and> (announced c \<longrightarrow> announced c')
    \<and> (test_state (test c') = Running \<and> streams (test c') = [] \<longrightarrow> control_broken (test c'))"
proof -
  note frame = process_message_frame [OF assms(1,2)]
  note str = process_streams [OF assms(1)]
  show ?thesis
  proof (cases m)
    case (CreateStream s)
    let ?k = "length (streams (test c))"
    have m': "streams (test c') = AList.update ?k (fresh_ref (test c) ?k s) (streams (test c))"
      using str CreateStream assms(3) by simp
    have "announced c \<Longrightarrow> announced c'"
      using frame assms(2) CreateStream set_update_subset [of ?k "fresh_ref (test c) ?k s" "streams (test c)"]
      unfolding announced_def list_all_iff m' by (fastforce simp: fresh_ref_def)
    moreover have "streams (test c') \<noteq> []" unfolding m' by (cases "streams (test c)") (auto split: prod.splits)
    ultimately show ?thesis
      using open_count_update [OF assms(4), of ?k "fresh_ref (test c) ?k s"] frame assms(2,4)
      by (simp add: pending_def m')
  next
    case (StreamTerminated sid)
    have m': "streams (test c') = AList.delete sid (streams (test c))"
      using str StreamTerminated assms(3) by simp
    have "announced c \<Longrightarrow> announced c'"
      using frame assms(2) StreamTerminated
      unfolding announced_def list_all_iff m' by (fastforce simp: AList.delete_eq)
    moreover note process_last [OF assms(1) [unfolded StreamTerminated]]
    ultimately show ?thesis
      using open_count_delete [OF assms(4), of sid] frame assms(2,3,4) m'
      by (simp add: pending_def)
  qed
qed

lemma settle_delivery:
  assumes "delivery_ok h c (detached srv)" "same_test c d" "wf_map (streams (test d))"
    and "pending d (detached srv @ dropped (streams (test c)) (streams (test d))) \<le> pending c (detached srv)"
    and "announced c \<longrightarrow> announced d" "test_role (test c) = Server"
    and "test_state (test d) = Running \<and> streams (test d) = [] \<longrightarrow> control_broken (test d)"
  shows "case in_flight (settle c (controller_turns ev old d) srv) of
      None \<Rightarrow> detached (settle c (controller_turns ev old d) srv) = []
    | Some (e, ph) \<Rightarrow> delivery_ok h e (detached (settle c (controller_turns ev old d) srv))"
proof (cases "controller_turns ev old d")
  case (Wait e s)
  have role: "test_role (test d) = Server" using assms(2,6) by (simp add: same_test_def)
  have st: "same_test d e" "mailbox e = mailbox d"
    using turns_server [OF role Wait] by simp_all
  note sw = turns_server_streams [OF role Wait]
  have "streams (test e) = [] \<longleftrightarrow> streams (test d) = []" using same_workersD(3) [OF sw] by auto
  then have "test_state (test e) = Running \<and> streams (test e) = [] \<longrightarrow> control_broken (test e)"
    using turns_server [OF role Wait] turns_running_broken [OF Wait] assms(7) by (auto split: if_splits)
  moreover
  have "announced e = announced d"
    unfolding announced_def st(2) by (rule same_workersD(4) [OF sw])
  ultimately show ?thesis
    using assms Wait st same_workersD(1,2) [OF sw] wf_same_workers [OF sw]
    by (auto simp: settle_def delivery_ok_def pending_def same_test_def)
qed (simp_all add: settle_def)

lemma dropped_self: "wf_map m \<Longrightarrow> dropped m m = []"
  by (auto simp: dropped_def filter_empty_conv wf_map_def)

lemma controller_task_delivery:
  assumes "delivery_inv h srv"
  shows "delivery_inv h (run_controller_task ev srv)"
proof (cases "in_flight srv")
  case None
  then show ?thesis using assms by (simp add: run_controller_task_def)
next
  case (Some x)
  obtain c ph where x: "x = (c, ph)" by (cases x)
  have inv: "server_inv h (run_controller_task ev srv)"
    using controller_task_inv assms by (simp add: delivery_inv_def)
  have ok: "flight_ok h c ph" "delivery_ok h c (detached srv)"
    using assms Some x by (simp_all add: delivery_inv_def server_inv_def)
  then have role: "test_role (test c) = Server" and wf: "wf_map (streams (test c))"
    by (simp_all add: flight_ok_def delivery_ok_def)
  show ?thesis
  proof (cases ph)
    case Spawned
    moreover have "test_state (test c) = Running \<and> streams (test c) = [] \<longrightarrow> control_broken (test c)"
      using ok(2) by (simp add: delivery_ok_def)
    ultimately show ?thesis
      using settle_delivery [OF ok(2) same_test_refl wf _ _ role, of ev] dropped_self [OF wf] inv Some x
      by (simp add: run_controller_task_def delivery_inv_def)
  next
    case (Waiting s)
    show ?thesis
    proof (cases "mailbox c")
      case Nil
      then show ?thesis using Some x Waiting assms by (simp add: run_controller_task_def)
    next
      case (Cons m ms)
      obtain r c' where pm: "process_internal_message (joins ev) (Some m) (c\<lparr>mailbox := ms\<rparr>) = (r, c')"
        by fastforce
      show ?thesis
      proof (cases r)
        case (Inl e)
        then show ?thesis
          using Some x Waiting Cons pm inv by (simp add: run_controller_task_def settle_def delivery_inv_def)
      next
        case (Inr u)
        then have pm': "process_internal_message (joins ev) (Some m) (c\<lparr>mailbox := ms\<rparr>) = (Inr (), c')"
          using pm by simp
        note pd = process_delivery [OF pm' Cons role wf, of "detached srv"]
        have "same_test c c'" using process_message_frame [OF pm' Cons] by blast
        then show ?thesis
          using settle_delivery [of h c srv c' ev s] pd ok role Some x Waiting Cons pm' inv
          by (simp add: run_controller_task_def delivery_inv_def)
      qed
    qed
  qed
qed

lemma open_count_end:
  assumes "live_worker sid c" "wf_map (streams (test c))"
  shows "Suc (open_count (streams (test (end_worker sid c)))) = open_count (streams (test c))"
proof -
  define close :: "(nat \<times> stream_worker_ref) list \<Rightarrow> _" where "close = map (\<lambda>(k, w). (k, if k = sid then w\<lparr>channel_closed := True\<rparr> else w))"
  have same: "open_count (close m) = open_count m" if "sid \<notin> set (keys m)" for m
    using that by (induction m) (auto simp: close_def open_count_def)
  have "Suc (open_count (close m)) = open_count m" if "map_of m sid = Some w" "\<not> channel_closed w" "wf_map m" for m w
    using that
  proof (induction m)
    case (Cons a m)
    obtain k v where a: "a = (k, v)" by (cases a)
    show ?case
    proof (cases "k = sid")
      case True
      then have "open_count (close m) = open_count m" using same [of m] Cons.prems(3) a by (simp add: wf_map_def)
      then show ?thesis using True Cons.prems a by (simp add: close_def open_count_def)
    next
      case False
      then have "Suc (open_count (close m)) = open_count m"
        using Cons a by (simp add: wf_map_def)
      then show ?thesis using False a by (simp add: close_def open_count_def)
    qed
  qed simp
  then show ?thesis
    using assms by (auto simp: live_worker_def end_worker_def controller_try_send_def close_def split: option.splits)
qed


lemma announced_send:
  assumes "announced c" "length (mailbox c) < INTERNAL_PROT_BUFFER"
  shows "announced (end_worker sid c)"
  using assms by (auto simp: announced_def list_all_iff end_worker_def controller_try_send_def split: if_splits)

text \<open>Workers that end one after the other before the controller runs.\<close>

lemma mailbox_end_workers:
  "mailbox (fold end_worker sids c)
     = mailbox c @ map StreamTerminated (take (INTERNAL_PROT_BUFFER - length (mailbox c)) sids)"
proof -
  define close :: "nat \<Rightarrow> controller \<Rightarrow> controller" where
    "close sid c = c\<lparr>test := (test c)\<lparr>streams :=
        map (\<lambda>(k, w). (k, if k = sid then w\<lparr>channel_closed := True\<rparr> else w)) (streams (test c))\<rparr>\<rparr>" for sid c
  have "end_worker = (\<lambda>sid c. snd (controller_try_send (StreamTerminated sid) (close sid c)))"
    by (simp add: fun_eq_iff end_worker_def close_def)
  then show ?thesis
    using mailbox_channel.burst [of close, where enc = StreamTerminated and xs = sids and c = c]
    by (simp add: close_def take_map)
qed

lemma streams_end_worker:
  "streams (test (end_worker sid c))
     = map (\<lambda>(k, w). (k, if k = sid then w\<lparr>channel_closed := True\<rparr> else w)) (streams (test c))"
  by (simp add: end_worker_def controller_try_send_def)

lemma streams_end_workers:
  "streams (test (fold end_worker sids c))
     = map (\<lambda>(k, w). (k, if k \<in> set sids then w\<lparr>channel_closed := True\<rparr> else w)) (streams (test c))"
proof (induction sids arbitrary: c)
  case Nil
  then show ?case by (simp add: case_prod_unfold)
next
  case (Cons sid sids)
  then show ?case by (simp add: streams_end_worker comp_def case_prod_unfold)
qed

lemma end_worker_delivery:
  assumes "delivery_ok h c ds" "live_worker sid c"
  shows "delivery_ok h (end_worker sid c) ds"
proof -
  have wf: "wf_map (streams (test c))" using assms(1) by (simp add: delivery_ok_def)
  have wf': "wf_map (streams (test (end_worker sid c)))"
    using wf by (simp add: end_worker_def controller_try_send_def wf_map_def comp_def case_prod_unfold)
  have len: "length (mailbox (end_worker sid c)) \<le> Suc (length (mailbox c))"
    by (simp add: end_worker_def controller_try_send_def)
  have same: "cookie (test (end_worker sid c)) = cookie (test c)"
      "test_state (test (end_worker sid c)) = test_state (test c)"
      "control_broken (test (end_worker sid c)) = control_broken (test c)"
      "streams (test (end_worker sid c)) = [] \<longleftrightarrow> streams (test c) = []"
    by (simp_all add: end_worker_def controller_try_send_def)
  note oc = open_count_end [OF assms(2) wf]
  have "length (mailbox c) < INTERNAL_PROT_BUFFER" if "hello_count (cookie (test c)) h \<le> 6"
    using assms(1) oc that by (simp add: delivery_ok_def pending_def INTERNAL_PROT_BUFFER_def)
  then show ?thesis
    using assms(1) oc len wf' same announced_send [of c sid]
    by (simp add: delivery_ok_def pending_def)
qed

lemma orphan_delivery:
  assumes "delivery_ok h c (xs @ sid # ys)"
  shows "delivery_ok h (snd (controller_try_send (StreamTerminated sid) c)) (xs @ ys)"
  using assms by (auto simp: delivery_ok_def pending_def announced_def list_all_iff controller_try_send_def)

lemma server_trace_delivery: "server_trace h srv \<Longrightarrow> delivery_inv h srv"
proof (induction rule: server_trace_steps)
  case init
  show ?case by (simp add: delivery_inv_def server_inv_def server_init_def)
next
  case (accept h srv inb srv')
  then show ?case by (auto intro: accept_delivery)
next
  case (controller h srv ev)
  then show ?case by (simp add: controller_task_delivery)
next
  case (worker h srv c ph sid)
  have "server_inv h (srv\<lparr>in_flight := Some (end_worker sid c, ph)\<rparr>)"
    using worker by (blast intro: server_trace_inv server_trace.internal server_step.worker)
  then show ?case
    using worker end_worker_delivery [of h c "detached srv" sid] by (simp add: delivery_inv_def)
next
  case (orphan h srv c ph xs sid ys)
  have "server_inv h (srv\<lparr>detached := xs @ ys,
      in_flight := Some (snd (controller_try_send (StreamTerminated sid) c), ph)\<rparr>)"
    using orphan by (blast intro: server_trace_inv server_trace.internal server_step.orphan)
  then show ?case
    using orphan orphan_delivery [of h c xs sid ys] by (simp add: delivery_inv_def)
next
  case (break h srv c ph)
  have "server_inv h (srv\<lparr>in_flight := Some (c\<lparr>test := (test c)\<lparr>control_broken := True\<rparr>\<rparr>, ph)\<rparr>)"
    using break by (blast intro: server_trace_inv server_trace.internal server_step.break)
  then show ?case
    using break by (simp add: delivery_inv_def delivery_ok_def pending_def announced_def)
qed

section \<open>A test that never ends\<close>

text \<open>
  The state in which the controller waits for a message that nobody will send: its mailbox is
  empty, every worker in its table has ended, and no detached worker runs.
\<close>

definition stuck :: "server \<Rightarrow> bool" where
  "stuck srv = (case in_flight srv of
      None \<Rightarrow> False
    | Some (c, ph) \<Rightarrow> ph = Waiting Running \<and> test_state (test c) = Running \<and> mailbox c = []
        \<and> detached srv = [] \<and> list_all (\<lambda>(k, w). channel_closed w) (streams (test c)))"

text \<open>The runs from a given state.\<close>

inductive server_steps :: "server \<Rightarrow> inbound list \<Rightarrow> server \<Rightarrow> bool" where
  none: "server_steps s [] s"
| served: "server_steps s h t \<Longrightarrow> server_step t (Some inb) u \<Longrightarrow> server_steps s (h @ [inb]) u"
| internal: "server_steps s h t \<Longrightarrow> server_step t None u \<Longrightarrow> server_steps s h u"

definition refusals :: "inbound list \<Rightarrow> (tcp_stream \<times> server_envelope) list" where
  "refusals h = map (\<lambda>inb. (inb_stream inb, already_in_flight)) h"

lemma stuck_step:
  assumes "server_step srv l srv'" "stuck srv"
  shows "stuck srv' \<and> replies srv' = replies srv @ (case l of None \<Rightarrow> [] | Some inb \<Rightarrow> refusals [inb])"
  using assms(1)
proof (cases rule: server_step.cases)
  case (accept inb)
  then show ?thesis using assms(2)
    by (auto simp: stuck_def serve_connection_def reply_def refusals_def split: option.splits)
next
  case (controller ev)
  then show ?thesis using assms(2)
    by (auto simp: stuck_def run_controller_task_def split: option.splits)
next
  case (worker c ph sid)
  have "False"
    using worker assms(2) map_of_SomeD [of "streams (test c)" sid]
    by (fastforce simp: stuck_def live_worker_def list_all_iff split: option.splits)
  then show ?thesis ..
next
  case (orphan c ph xs sid ys)
  then show ?thesis using assms(2) by (simp add: stuck_def)
next
  case (break c ph)
  then show ?thesis using assms(2) by (simp add: stuck_def)
qed

definition reverse_run :: "nat \<Rightarrow> action list" where
  "reverse_run n = Serve (sample_control 1 ''k'' (sample_params ServerToClient (of_nat n)))
     # Controller (sample_env sample_stats test_results_default)
     # concat (map (\<lambda>i. [Serve (sample_data (i + 2) ''k''),
         Controller (sample_env sample_stats test_results_default)]) [0..<n])"

definition control_breaks :: "action list" where
  "control_breaks = reverse_run 1 @ [Break, EndWorker 0, Controller (sample_env sample_stats test_results_default)]"


definition reaches :: "action list \<Rightarrow> (server \<Rightarrow> bool) \<Rightarrow> bool" where
  "reaches as P = (case execute as server_init of None \<Rightarrow> False | Some srv \<Rightarrow> P srv)"

lemma reaches_trace: "reaches as P \<Longrightarrow> \<exists>srv. server_trace (served_by as) srv \<and> P srv"
  using execute_init by (auto simp: reaches_def split: option.splits)

lemma control_breaks_run:
  "reaches control_breaks (\<lambda>srv. stuck srv \<and> streams (test (the_controller srv)) = [])"
  by code_simp

lemma stuck_steps:
  assumes "server_steps srv h srv'" "stuck srv"
  shows "stuck srv' \<and> replies srv' = replies srv @ refusals h"
  using assms
proof (induction rule: server_steps.induct)
  case (served s h t inb u)
  then show ?case using stuck_step [OF served.hyps(2)] by (simp add: refusals_def)
next
  case (internal s h t u)
  then show ?case using stuck_step [OF internal.hyps(2)] by simp
qed (simp add: refusals_def)

lemma stuck_in_flight: "stuck srv \<Longrightarrow> in_flight srv = Some (the_controller srv, Waiting Running)"
  by (auto simp: stuck_def the_controller_def split: option.splits)

text \<open>
  The controller handles the terminations in its mailbox one by one, while a stream that is not among them
  stays in the table: then it waits again, with the table reduced to the other streams.
\<close>

definition all_ended :: "controller \<Rightarrow> bool" where
  "all_ended c \<longleftrightarrow> list_all (\<lambda>(k, w). channel_closed w) (streams (test c))"

lemma dropped_ended: "list_all (\<lambda>(k, w). channel_closed w) m \<Longrightarrow> dropped m m' = []"
  by (auto simp: dropped_def list_all_iff filter_empty_conv)

lemma controller_task_terminated:
  assumes "in_flight srv = Some (c, Waiting Running)" "test_state (test c) = Running" "mailbox c = StreamTerminated sid # ms"
    and "all_ended c" "sid \<in> set (keys (streams (test c)))" "joins ev sid \<noteq> JoinError"
    and "AList.delete sid (streams (test c)) \<noteq> []"
  shows "\<exists>c'. run_controller_task ev srv = srv\<lparr>in_flight := Some (c', Waiting Running)\<rparr>
    \<and> test_state (test c') = Running \<and> mailbox c' = ms \<and> streams (test c') = AList.delete sid (streams (test c))"
proof -
  let ?c = "c\<lparr>test := (test c)\<lparr>streams := AList.delete sid (streams (test c))\<rparr>,
      stream_results := add_result (joins ev sid) sid (stream_results c), mailbox := ms\<rparr>"
  have "process_internal_message (joins ev) (Some (StreamTerminated sid)) (c\<lparr>mailbox := ms\<rparr>) = (Inr (), ?c)"
    using process_terminated [of sid "c\<lparr>mailbox := ms\<rparr>" ev] assms(5-7) by simp
  moreover have "controller_turns ev Running ?c = Wait ?c Running"
    by (rule turns_running) (simp add: assms(2))
  moreover have "dropped (streams (test c)) (streams (test ?c)) = []"
    using assms(4) by (simp add: all_ended_def dropped_ended)
  ultimately have "run_controller_task ev srv = srv\<lparr>in_flight := Some (?c, Waiting Running)\<rparr>"
    using assms(1,3) by (simp add: run_controller_task_def settle_def)
  then show ?thesis using assms(2) by (intro exI [of _ ?c]) simp
qed

lemma controller_tasks_terminated:
  assumes "length evs = length sids" "in_flight srv = Some (c, Waiting Running)" "test_state (test c) = Running"
    and "mailbox c = map StreamTerminated sids" "all_ended c" "distinct sids" "set sids \<subset> set (keys (streams (test c)))"
    and "\<forall>ev \<in> set evs. \<forall>sid. joins ev sid \<noteq> JoinError"
  shows "\<exists>c'. fold run_controller_task evs srv = srv\<lparr>in_flight := Some (c', Waiting Running)\<rparr>
    \<and> test_state (test c') = Running \<and> mailbox c' = []
    \<and> streams (test c') = filter (\<lambda>(k, w). k \<notin> set sids) (streams (test c))"
  using assms
proof (induction evs sids arbitrary: srv c rule: list_induct2)
  case Nil
  then show ?case by (intro exI [of _ c]) (simp add: filter_True)
next
  case (Cons ev evs sid sids)
  let ?m = "AList.delete sid (streams (test c))"
  have keys: "set (keys ?m) = set (keys (streams (test c))) - {sid}" by (simp add: set_keys_delete del: set_map)
  then have rest: "set sids \<subset> set (keys ?m)" using Cons.prems(5,6) by auto
  then have "?m \<noteq> []" by auto
  then obtain c1 where c1: "run_controller_task ev srv = srv\<lparr>in_flight := Some (c1, Waiting Running)\<rparr>"
      "test_state (test c1) = Running" "mailbox c1 = map StreamTerminated sids" "streams (test c1) = ?m"
    using controller_task_terminated [OF Cons.prems(1,2), of sid "map StreamTerminated sids" ev] Cons.prems(3-7) by auto
  have "all_ended c1"
    using Cons.prems(4) c1(4) by (auto simp: all_ended_def list_all_iff AList.delete_eq)
  then obtain c' where c': "fold run_controller_task evs (srv\<lparr>in_flight := Some (c1, Waiting Running)\<rparr>)
        = srv\<lparr>in_flight := Some (c', Waiting Running)\<rparr>"
      "test_state (test c') = Running" "mailbox c' = []" "streams (test c') = filter (\<lambda>(k, w). k \<notin> set sids) ?m"
    using Cons.IH [of "srv\<lparr>in_flight := Some (c1, Waiting Running)\<rparr>" c1] c1 rest Cons.prems(5,7) by auto
  have "filter (\<lambda>(k, w). k \<notin> set sids) ?m = filter (\<lambda>(k, w). k \<notin> set (sid # sids)) (streams (test c))"
    by (auto simp: AList.delete_eq intro!: filter_cong)
  then show ?case using c1(1) c' by (intro exI [of _ c']) simp
qed

text \<open>The steps of workers that end one after the other, and of the controller that runs several times.\<close>

lemma map_of_map_key: "map_of (map (\<lambda>(k, w). (k, f k w)) m) k = map_option (f k) (map_of m k)"
  by (induction m) auto

lemma server_steps_workers:
  assumes "in_flight srv = Some (c, ph)" "distinct sids" "\<forall>sid \<in> set sids. live_worker sid c"
  shows "server_steps srv [] (srv\<lparr>in_flight := Some (fold end_worker sids c, ph)\<rparr>)"
  using assms(2,3)
proof (induction sids rule: rev_induct)
  case Nil
  have "srv\<lparr>in_flight := Some (c, ph)\<rparr> = srv" using assms(1) by simp
  then show ?case by (simp add: server_steps.none)
next
  case (snoc sid sids)
  let ?c = "fold end_worker sids c" and ?s = "\<lambda>c. srv\<lparr>in_flight := Some (c, ph)\<rparr>"
  have "live_worker sid ?c"
    using snoc.prems by (auto simp: live_worker_def streams_end_workers map_of_map_key split: option.splits)
  then have "server_step (?s ?c) None (?s (end_worker sid ?c))"
    using server_step.worker [of "?s ?c" ?c ph sid] by simp
  then show ?case using server_steps.internal [OF snoc.IH] snoc.prems by simp
qed

lemma server_steps_controller:
  "server_steps srv h srv' \<Longrightarrow> server_steps srv h (fold run_controller_task evs srv')"
  by (induction evs arbitrary: srv') (auto intro: server_steps.internal server_step.controller)

section \<open>Properties\<close>

text \<open>
  C35. Well-formedness of the server: in every reachable state the test in flight is a server's, its table of
  streams has one entry per id, its mailbox holds at most five messages, its state is one the controller
  waits in, and mailbox, detached tasks and running workers together are fewer than the connections that
  presented its cookie.
\<close>

theorem server_state_well_formed:
  assumes "server_trace h srv" "in_flight srv = Some (c, ph)"
  shows "test_role (test c) = Server \<and> wf_map (streams (test c))
    \<and> length (mailbox c) \<le> INTERNAL_PROT_BUFFER
    \<and> (case ph of Spawned \<Rightarrow> test_state (test c) = TestStart
        | Waiting s \<Rightarrow> test_state (test c) = s \<and> s \<in> {CreateStreams (cookie (test c)), Running})
    \<and> length (mailbox c) + length (detached srv) + open_count (streams (test c)) < hello_count (cookie (test c)) h"
  using server_trace_delivery [OF assms(1)] assms(2)
  by (auto simp: delivery_inv_def delivery_ok_def server_inv_def flight_ok_def pending_def split: phase.splits)

theorem server_state_well_formed_witness:
  "wf_map (streams (test (the_controller sample_server)))
    \<and> open_count (streams (test (the_controller sample_server))) < hello_count ''k'' (served_by sample_run)"
  using server_state_well_formed [OF execute_init [OF sample_run_state(1)] sample_run_state(2)] sample_run_state(5)
  by simp

text \<open>
  C28. As long as at most five data connections presented the cookie of a test (the \<open>6\<close> counts its
  control connection), no notification is lost: of every worker that has ended and is still in the
  table, the termination is in the mailbox of the controller.
\<close>

theorem no_notification_lost:
  assumes "server_trace h srv" "in_flight srv = Some (c, ph)"
    and "hello_count (cookie (test c)) h \<le> 6" "(k, w) \<in> set (streams (test c))" "channel_closed w"
  shows "StreamTerminated k \<in> set (mailbox c)"
  using server_trace_delivery [OF assms(1)] assms(2-)
  by (auto simp: delivery_inv_def delivery_ok_def announced_def list_all_iff)

theorem no_notification_lost_witness:
  "StreamTerminated 0 \<in> set (mailbox (the_controller (the (execute (sample_run @ [EndWorker 0]) server_init))))"
proof -
  let ?srv = "the (execute (sample_run @ [EndWorker 0]) server_init)"
  have "execute (sample_run @ [EndWorker 0]) server_init = Some ?srv"
      "in_flight ?srv = Some (the_controller ?srv, Waiting (CreateStreams ''k''))"
      "hello_count (cookie (test (the_controller ?srv))) (served_by (sample_run @ [EndWorker 0])) \<le> 6"
      "map_of (streams (test (the_controller ?srv))) 0 = Some (snd (hd (streams (test (the_controller ?srv)))))"
      "channel_closed (snd (hd (streams (test (the_controller ?srv)))))"
    by code_simp+
  then show ?thesis
    using no_notification_lost [OF execute_init] map_of_SomeD by metis
qed

text \<open>
  C29. With at most five data connections and a control connection that works, a running test is
  never in the state where its controller waits for a message that nobody will send.
\<close>

theorem five_streams_not_stuck:
  assumes "server_trace h srv" "in_flight srv = Some (c, ph)"
    and "hello_count (cookie (test c)) h \<le> 6" "\<not> control_broken (test c)"
  shows "\<not> stuck srv"
proof
  assume "stuck srv"
  then have st: "test_state (test c) = Running" "mailbox c = []"
      "list_all (\<lambda>(k, w). channel_closed w) (streams (test c))"
    using assms(2) by (simp_all add: stuck_def)
  have ok: "delivery_ok h c (detached srv)"
    using server_trace_delivery [OF assms(1)] assms(2) by (simp add: delivery_inv_def)
  then have "streams (test c) \<noteq> []" "announced c"
    using assms(3,4) st(1) by (auto simp: delivery_ok_def)
  with st(2,3) show False by (cases "streams (test c)") (auto simp: announced_def)
qed

theorem five_streams_not_stuck_witness:
  "reaches (reverse_run 2 @ map EndWorker [0..<2]) (\<lambda>srv. \<not> stuck srv)"
proof -
  let ?as = "reverse_run 2 @ map EndWorker [0..<2]"
  have "reaches ?as (\<lambda>srv. in_flight srv = Some (the_controller srv, Waiting Running)
      \<and> hello_count (cookie (test (the_controller srv))) (served_by ?as) \<le> 6
      \<and> \<not> control_broken (test (the_controller srv)))"
    by code_simp
  then show ?thesis
    using five_streams_not_stuck [OF execute_init] unfolding reaches_def
    by (cases "execute ?as server_init") auto
qed

text \<open>
  C31. A test stuck there stays there: from then on every connection, whatever it sends, is told that
  a test is in flight, and nothing but those refusals is ever written.
\<close>

theorem stuck_forever:
  assumes "server_steps srv h srv'" "stuck srv"
  shows "stuck srv' \<and> replies srv' = replies srv @ map (\<lambda>inb. (inb_stream inb, already_in_flight)) h"
  using stuck_steps [OF assms] by (simp add: refusals_def)

theorem stuck_forever_witness:
  "reaches control_breaks (\<lambda>srv. \<exists>srv'. server_step srv (Some (sample_data 99 ''new'')) srv' \<and> stuck srv'
     \<and> replies srv' = replies srv @ [(99, already_in_flight)])"
proof -
  let ?inb = "sample_data 99 ''new''"
  have "reaches control_breaks (\<lambda>srv. stuck srv \<and> fst (serve_connection ?inb srv) = Inr ())"
    by code_simp
  then obtain srv where srv: "execute control_breaks server_init = Some srv" "stuck srv"
      "fst (serve_connection ?inb srv) = Inr ()"
    by (auto simp: reaches_def split: option.splits)
  then have step: "server_step srv (Some ?inb) (snd (serve_connection ?inb srv))"
    by (intro server_step.accept) (simp add: prod_eq_iff)
  from stuck_forever [OF server_steps.served [OF server_steps.none step] srv(2)] step srv(1)
  show ?thesis by (auto simp: reaches_def sample_data_def)
qed

text \<open>
  What a burst leaves: of the workers that end before the controller receives again, exactly the first
  ones that still fit into the five places are announced, in their order; every other one is closed, still
  in the table, and nothing will announce it.
\<close>

theorem burst_keeps_five:
  assumes "length (mailbox c) + k = 5" "distinct sids" "\<And>sid. StreamTerminated sid \<notin> set (mailbox c)"
  shows "mailbox (fold end_worker sids c) = mailbox c @ map StreamTerminated (take k sids)
    \<and> keys (streams (test (fold end_worker sids c))) = keys (streams (test c))
    \<and> (\<forall>sid \<in> set (drop k sids). StreamTerminated sid \<notin> set (mailbox (fold end_worker sids c))
         \<and> \<not> live_worker sid (fold end_worker sids c))"
proof (intro conjI ballI)
  have k: "INTERNAL_PROT_BUFFER - length (mailbox c) = k" using assms(1) by (simp add: INTERNAL_PROT_BUFFER_def)
  show m: "mailbox (fold end_worker sids c) = mailbox c @ map StreamTerminated (take k sids)"
    by (simp add: mailbox_end_workers k)
  show "keys (streams (test (fold end_worker sids c))) = keys (streams (test c))"
    by (simp add: streams_end_workers comp_def case_prod_unfold)
  fix sid
  assume sid: "sid \<in> set (drop k sids)"
  have "set (take k sids) \<inter> set (drop k sids) = {}" using assms(2) by (rule set_take_disj_set_drop_if_distinct) simp
  then show "StreamTerminated sid \<notin> set (mailbox (fold end_worker sids c))"
    using sid assms(3) unfolding m by auto
  have "sid \<in> set sids" using sid by (rule in_set_dropD)
  then show "\<not> live_worker sid (fold end_worker sids c)"
    by (auto simp: live_worker_def streams_end_workers dest!: map_of_SomeD split: option.split)
qed

definition six_registered :: controller where
  "six_registered = fold create_and_register_stream_worker [20..<26]
     (controller_new (perf_test_new None ''k'' ([], False) Server (sample_params ServerToClient 6)))"

theorem burst_keeps_five_witness:
  "mailbox (fold end_worker [0..<6] six_registered) = map StreamTerminated [0..<5]
    \<and> keys (streams (test (fold end_worker [0..<6] six_registered))) = [0..<6]
    \<and> \<not> live_worker 5 (fold end_worker [0..<6] six_registered)"
proof -
  have "mailbox six_registered = []" "keys (streams (test six_registered)) = [0..<6]"
    by code_simp+
  then show ?thesis using burst_keeps_five [of six_registered 5 "[0..<6]"] by (simp add: take_upt)
qed

text \<open>
  C30. A burst of terminations loses notifications. When all the workers of a running test, more than five, end
  before its controller runs, exactly the first five notifications are delivered and the others are lost; once
  the controller has handled these five (no join failing), it waits with the remaining streams in its table, and
  from there on, whatever runs and whoever connects, it waits for ever and every connection is refused.
\<close>

theorem burst_gets_stuck:
  assumes "server_trace h srv" "in_flight srv = Some (c, Waiting Running)" "mailbox c = []" "detached srv = []"
    and "distinct sids" "set sids = set (keys (streams (test c)))" "\<forall>sid \<in> set sids. live_worker sid c" "5 < length sids"
    and "length evs = 5" "\<forall>ev \<in> set evs. \<forall>sid. joins ev sid \<noteq> JoinError"
    and "srv1 = srv\<lparr>in_flight := Some (fold end_worker sids c, Waiting Running)\<rparr>" "srv2 = fold run_controller_task evs srv1"
  shows "server_steps srv [] srv1 \<and> mailbox (the_controller srv1) = map StreamTerminated (take 5 sids)
    \<and> server_steps srv1 [] srv2 \<and> set (keys (streams (test (the_controller srv2)))) = set (drop 5 sids)
    \<and> (\<forall>h' srv3. server_steps srv2 h' srv3 \<longrightarrow>
         stuck srv3 \<and> replies srv3 = replies srv2 @ map (\<lambda>inb. (inb_stream inb, already_in_flight)) h')"
proof (intro conjI allI impI)
  let ?c = "fold end_worker sids c"
  have "test_state (test c) = Running"
    using server_trace_delivery [OF assms(1)] assms(2) by (simp add: delivery_inv_def server_inv_def flight_ok_def)
  moreover have "test_state (test (fold end_worker xs c)) = test_state (test c)" for xs
    by (induction xs rule: rev_induct) (simp_all add: end_worker_def controller_try_send_def)
  ultimately have running: "test_state (test ?c) = Running" by simp
  have ended: "all_ended ?c"
    unfolding all_ended_def list_all_iff streams_end_workers using assms(6) by force
  have mb: "mailbox ?c = map StreamTerminated (take 5 sids)"
    using assms(3) by (simp add: mailbox_end_workers INTERNAL_PROT_BUFFER_def)
  have keys: "keys (streams (test ?c)) = keys (streams (test c))"
    by (simp add: streams_end_workers comp_def case_prod_unfold)
  have split: "set (take 5 sids) \<union> set (drop 5 sids) = set sids" "set (take 5 sids) \<inter> set (drop 5 sids) = {}" "drop 5 sids \<noteq> []"
    using assms(5,8) by (simp_all flip: set_append add: set_take_disj_set_drop_if_distinct)
  obtain k where "k \<in> set (drop 5 sids)" using split(3) by (cases "drop 5 sids") auto
  then have "set (take 5 sids) \<subset> set (keys (streams (test ?c)))"
    using split(1,2) unfolding keys assms(6) [symmetric] by blast
  moreover have "length evs = length (take 5 sids)" using assms(8,9) by simp
  ultimately obtain c' where c': "srv2 = srv1\<lparr>in_flight := Some (c', Waiting Running)\<rparr>" "test_state (test c') = Running"
      "mailbox c' = []" "streams (test c') = filter (\<lambda>(k, w). k \<notin> set (take 5 sids)) (streams (test ?c))"
    using controller_tasks_terminated [of evs "take 5 sids" srv1 ?c] running mb ended assms(5,10,11,12) by auto
  show "server_steps srv [] srv1" unfolding assms(11) by (rule server_steps_workers [OF assms(2,5,7)])
  show "mailbox (the_controller srv1) = map StreamTerminated (take 5 sids)"
    using mb assms(11) by (simp add: the_controller_def)
  show "server_steps srv1 [] srv2" unfolding assms(12) by (intro server_steps_controller server_steps.none)
  have "set (keys (streams (test c'))) = set (keys (streams (test ?c))) - set (take 5 sids)" by (force simp: c'(4))
  then show "set (keys (streams (test (the_controller srv2)))) = set (drop 5 sids)"
    using c'(1) split keys assms(6) by (auto simp: the_controller_def)
  have stuck: "stuck srv2"
    using c' ended assms(4,11) by (auto simp: stuck_def all_ended_def list_all_iff)
  fix h' srv3
  assume "server_steps srv2 h' srv3"
  from stuck_steps [OF this stuck] show "stuck srv3"
    "replies srv3 = replies srv2 @ map (\<lambda>inb. (inb_stream inb, already_in_flight)) h'"
    by (simp_all add: refusals_def)
qed

theorem burst_gets_stuck_witness:
  "reaches (reverse_run 6) (\<lambda>srv. \<exists>srv2. server_steps srv [] srv2 \<and> stuck srv2
     \<and> set (keys (streams (test (the_controller srv2)))) = {5})"
proof -
  have "reaches (reverse_run 6) (\<lambda>srv. in_flight srv = Some (the_controller srv, Waiting Running)
      \<and> mailbox (the_controller srv) = [] \<and> detached srv = [] \<and> keys (streams (test (the_controller srv))) = [0..<6]
      \<and> list_all (\<lambda>sid. live_worker sid (the_controller srv)) [0..<6])"
    by code_simp
  then obtain srv where e: "execute (reverse_run 6) server_init = Some srv"
      and s: "in_flight srv = Some (the_controller srv, Waiting Running)" "mailbox (the_controller srv) = []" "detached srv = []"
        "set [0..<6] = set (keys (streams (test (the_controller srv))))" "\<forall>sid \<in> set [0..<6]. live_worker sid (the_controller srv)"
    unfolding reaches_def list_all_iff by (cases "execute (reverse_run 6) server_init") (simp_all del: set_map)
  let ?evs = "replicate 5 (sample_env sample_stats test_results_default)"
  define srv1 srv2 where "srv1 = srv\<lparr>in_flight := Some (fold end_worker [0..<6] (the_controller srv), Waiting Running)\<rparr>"
    and "srv2 = fold run_controller_task ?evs srv1"
  have t: "server_steps srv [] srv1 \<and> server_steps srv1 [] srv2
      \<and> set (keys (streams (test (the_controller srv2)))) = set (drop 5 [0..<6])
      \<and> (\<forall>h' srv3. server_steps srv2 h' srv3 \<longrightarrow> stuck srv3)"
    using burst_gets_stuck [OF execute_init [OF e] s(1-3) _ s(4,5) _ _ _ srv1_def srv2_def]
    by (simp add: sample_env_def)
  have "server_steps srv [] srv2"
    unfolding srv2_def using t by (intro server_steps_controller) blast
  moreover have "stuck srv2" using t server_steps.none by blast
  moreover have "set (drop 5 [0..<6]) = {5 :: nat}" by (simp add: drop_upt upt_rec)
  ultimately show ?thesis using e t by (auto simp: reaches_def)
qed

text \<open>
  A client that goes away has the same effect: when the control connection is broken as the last stream
  ends, the error of the last \<open>set_state\<close> is ignored, the state stays \<open>Running\<close>, and the controller
  waits for ever with no stream left.
\<close>

theorem lost_client_gets_stuck:
  "\<exists>h srv c. server_trace h srv \<and> in_flight srv = Some (c, Waiting Running) \<and> stuck srv
    \<and> streams (test c) = []"
  using reaches_trace [OF control_breaks_run] stuck_in_flight by metis

end
