(* ===== verification/Atomic.thy ===== *)
theory Atomic
  imports InterleaveInv Delivery
begin

text \<open>
  The steps of theory \<open>Server\<close>, in which a connection is served and a message is handled without
  interruption, are schedules of the system of theory \<open>Interleave\<close>: what can happen there can happen here.
\<close>

section \<open>A controller that is not interrupted\<close>

text \<open>The list collects the workers whose handles are dropped on the way.\<close>

inductive settles :: "env \<Rightarrow> controller \<times> point \<Rightarrow> nat list \<Rightarrow> controller \<times> point \<Rightarrow> bool" for ev where
  stay: "settles ev x [] x"
| step: "pc \<noteq> Ended \<Longrightarrow> controller_resume ev False (c, pc) = (c', pc') \<Longrightarrow> settles ev (c', pc') ds z \<Longrightarrow>
    settles ev (c, pc) (dropped (streams (test c)) (streams (test c')) @ ds) z"

lemma settles_trans:
  "settles ev x ds y \<Longrightarrow> settles ev y es z \<Longrightarrow> settles ev x (ds @ es) z"
  by (induction rule: settles.induct) (auto intro: settles.step)

lemma settles_schedule:
  assumes "settles ev x ds z" "flight s = Some x" "\<not> guard_held (acceptor_at s)"
  shows "\<exists>n t. schedule (replicate n (Control ev)) s = Some t \<and> flight t = Some z
    \<and> acceptor_at t = acceptor_at s \<and> answers t = answers s
    \<and> (snd z \<noteq> Ended \<longrightarrow> orphans t = orphans s @ ds) \<and> (snd z = Ended \<and> snd x \<noteq> Ended \<longrightarrow> orphans t = [])"
  using assms
proof (induction arbitrary: s rule: settles.induct)
  case (stay x)
  then show ?case by (intro exI [of _ 0]) simp
next
  case (step pc c c' pc' ds z)
  let ?u = "s\<lparr>flight := Some (c', pc'), orphans := (if pc' = Ended then [] else
      orphans s @ dropped (streams (test c)) (streams (test c')))\<rparr>"
  have u: "perform (Control ev) s = Some ?u"
    using step by (simp add: perform_def)
  have ended: "z = (c', Ended)" if "pc' = Ended"
    using step.hyps(3) that by (cases rule: settles.cases) auto
  obtain n t where t: "schedule (replicate n (Control ev)) ?u = Some t" "flight t = Some z"
      "acceptor_at t = acceptor_at ?u" "answers t = answers ?u" "snd z \<noteq> Ended \<longrightarrow> orphans t = orphans ?u @ ds"
      "snd z = Ended \<and> pc' \<noteq> Ended \<longrightarrow> orphans t = []"
    using step.IH [of ?u] step.prems by auto
  have "orphans t = []" if "snd z = Ended"
  proof (cases "pc' = Ended")
    case True
    then have "schedule (replicate n (Control ev)) ?u = Some t \<Longrightarrow> n = 0"
      by (cases n) (simp_all add: perform_def)
    then show ?thesis using t(1) True by auto
  next
    case False
    then show ?thesis using t(6) that by simp
  qed
  moreover have "pc' \<noteq> Ended" if "snd z \<noteq> Ended" using ended that by auto
  ultimately show ?case
    using t u by (intro exI [of _ "Suc n"] exI [of _ t]) auto
qed

lemma dropped_same:
  assumes "wf_map m" "same_workers m m'"
  shows "dropped m m' = []"
  using same_workersD(2) [OF assms(2), of m] dropped_self [OF assms(1)] by simp

lemma settles_same:
  assumes "settles ev (c', pc') ds z" "pc \<noteq> Ended" "controller_resume ev False (c, pc) = (c', pc')"
    and "wf_map (streams (test c))" "same_workers (streams (test c)) (streams (test c'))"
  shows "settles ev (c, pc) ds z"
  using settles.step [OF assms(2,3,1)] dropped_same [OF assms(4,5)] by simp

text \<open>Announcing a state and storing it is \<open>set_state\<close>.\<close>

lemma settles_announce:
  assumes "wf_map (streams (test c))" "test_role (test c) = Server"
  shows "case set_state st (test c) of
      (Inl e, t) \<Rightarrow> settles ev (c, Announcing st strict old) [] (c\<lparr>test := t\<rparr>, if strict then Ended else Top old)
    | (Inr _, t) \<Rightarrow> settles ev (c, Announcing st strict old) [] (c\<lparr>test := t\<rparr>, Top old)"
proof (cases "control_broken (test c)")
  case True
  then have "controller_resume ev False (c, Announcing st strict old) = (c, if strict then Ended else Top old)"
    by (simp add: controller_resume_def control_send_def)
  then have "settles ev (c, Announcing st strict old) [] (c, if strict then Ended else Top old)"
    by (rule settles_same [OF settles.stay, rotated]) (simp_all add: assms)
  then show ?thesis using True assms(2) by (simp add: set_state_broken cong: if_cong)
next
  case False
  let ?t = "(test c)\<lparr>control_sent := control_sent (test c) @ [ToClient (SetState st)]\<rparr>"
  have one: "controller_resume ev False (c, Announcing st strict old) = (c\<lparr>test := ?t\<rparr>, Storing st old)"
    using False by (simp add: controller_resume_def control_send_def)
  have two: "controller_resume ev False (c\<lparr>test := ?t\<rparr>, Storing st old) = (c\<lparr>test := ?t\<lparr>test_state := st\<rparr>\<rparr>, Top old)"
    by (simp add: controller_resume_def)
  have "settles ev (c\<lparr>test := ?t\<rparr>, Storing st old) [] (c\<lparr>test := ?t\<lparr>test_state := st\<rparr>\<rparr>, Top old)"
    by (rule settles_same [OF settles.stay _ two]) (simp_all add: assms(1))
  from settles_same [OF this _ one] have "settles ev (c, Announcing st strict old) [] (c\<lparr>test := ?t\<lparr>test_state := st\<rparr>\<rparr>, Top old)"
    by (simp add: assms(1))
  then show ?thesis using False assms(2) by (simp add: set_state_server)
qed

text \<open>The part of the loop before it waits.\<close>

lemma settles_turns:
  assumes "wf_map (streams (test c))" "test_role (test c) = Server"
  shows "case controller_turns ev old c of
      Wait c' st \<Rightarrow> settles ev (c, Top old) [] (c', Receiving st)
    | _ \<Rightarrow> \<exists>c' ds. settles ev (c, Top old) ds (c', Ended)"
proof (cases "test_state (test c)")
  case TestStart
  let ?s = "CreateStreams (cookie (test c))"
  have one: "controller_resume ev False (c, Top old) = (c, Announcing ?s True old)"
    using TestStart by (simp add: controller_resume_def)
  note an = settles_announce [OF assms, where st = ?s and ev = ev and strict = True and old = old]
  show ?thesis
  proof (cases "control_broken (test c)")
    case True
    then have "settles ev (c, Announcing ?s True old) [] (c, Ended)"
      using an assms(2) by (simp add: set_state_broken)
    then have "settles ev (c, Top old) [] (c, Ended)"
      by (rule settles_same [OF _ _ one]) (simp_all add: assms(1))
    then show ?thesis using True TestStart assms(2)
      by (auto simp: controller_turns.simps [of ev old c] controller_turn_def Let_def set_state_broken)
  next
    case False
    let ?c = "c\<lparr>test := (test c)\<lparr>control_sent := control_sent (test c) @ [ToClient (SetState ?s)], test_state := ?s\<rparr>\<rparr>"
    have "settles ev (c, Announcing ?s True old) [] (?c, Top old)"
      using an assms(2) False by (simp add: set_state_server)
    moreover have "settles ev (?c, Top old) [] (?c, Receiving ?s)"
      by (rule settles_same [OF settles.stay]) (simp_all add: assms(1) controller_resume_def)
    ultimately have "settles ev (c, Announcing ?s True old) [] (?c, Receiving ?s)"
      using settles_trans by fastforce
    then have "settles ev (c, Top old) [] (?c, Receiving ?s)"
      by (rule settles_same [OF _ _ one]) (simp_all add: assms(1))
    then show ?thesis using False TestStart assms(2) by (simp add: turns_server_start Let_def)
  qed
next
  case (CreateStreams ck)
  have "settles ev (c, Top old) [] (c, Receiving (CreateStreams ck))"
    by (rule settles_same [OF settles.stay]) (simp_all add: assms(1) controller_resume_def CreateStreams)
  then show ?thesis using CreateStreams assms(2) by (simp add: turns_server_create)
next
  case Running
  let ?c = "if old \<noteq> Running then broadcast_to_streams StartLoad (print Header c) else c"
  have "same_workers (streams (test c)) (streams (test ?c))"
    using same_workers_broadcast [of "print Header c" StartLoad] by simp
  then have "settles ev (c, Top old) [] (?c, Receiving Running)"
    by (intro settles_same [OF settles.stay _ _ assms(1)]) (simp_all add: controller_resume_def Running)
  then show ?thesis using Running turns_running [of c ev] turns_running_start [of c old ev]
    by (cases "old = Running") simp_all
next
  case ExchangeResults
  let ?c = "broadcast_to_streams Terminate c"
  have "snd (controller_resume ev False (?c, Exchanging)) = Ended"
    by (simp add: controller_resume_def split: prod.split sum.split)
  then obtain c' where "controller_resume ev False (?c, Exchanging) = (c', Ended)" by (metis prod.collapse)
  then obtain es where "settles ev (?c, Exchanging) es (c', Ended)"
    using settles.step [OF _ _ settles.stay] by blast
  moreover have "controller_resume ev False (c, Top old) = (?c, Exchanging)"
    using ExchangeResults by (simp add: controller_resume_def)
  ultimately have "\<exists>c' ds. settles ev (c, Top old) ds (c', Ended)"
    using settles.step [of "Top old" ev c] by blast
  moreover have "\<not> (\<exists>c' s. controller_turns ev old c = Wait c' s)"
    using turns_server [OF assms(2), of ev old] ExchangeResults by auto
  ultimately show ?thesis by (auto split: turn.splits)
next
  case DisplayResults
  have "settles ev (c, Top old) [] (c, Receiving DisplayResults)"
    by (rule settles_same [OF settles.stay]) (simp_all add: assms(1) controller_resume_def DisplayResults)
  moreover have "controller_turn ev old c = Wait c DisplayResults"
    using DisplayResults by (simp add: controller_turn_def Let_def)
  ultimately show ?thesis by (simp add: controller_turns.simps [of ev old c])
qed

text \<open>Handling a message.\<close>

lemma settles_terminated:
  assumes "wf_map (streams (test c))" "test_role (test c) = Server"
  shows "settles ev (after_termination c old) []
    (if streams (test c) = [] then c\<lparr>test := snd (set_state ExchangeResults (test c))\<rparr> else c, Top old)"
proof (cases "streams (test c) = []")
  case True
  then show ?thesis
    using settles_announce [OF assms, where st = ExchangeResults and ev = ev and strict = False and old = old]
    by (auto simp: after_termination_def split: prod.splits sum.splits)
qed (simp add: after_termination_def settles.stay)

lemma wf_streams_delete: "wf_map m \<Longrightarrow> wf_map (AList.delete k m)"
  by (simp add: wf_map_def distinct_delete)

lemma wf_streams_update: "wf_map m \<Longrightarrow> wf_map (AList.update k w m)"
  by (simp add: wf_map_def distinct_update)

lemma settles_message:
  assumes "wf_map (streams (test c))" "test_role (test c) = Server" "mailbox c = m # ms"
    and "process_internal_message (joins ev) (Some m) (c\<lparr>mailbox := ms\<rparr>) = (r, c')"
  shows "case r of
      Inl e \<Rightarrow> \<exists>d ds. settles ev (c, Receiving old) ds (d, Ended)
    | Inr _ \<Rightarrow> wf_map (streams (test c'))
        \<and> settles ev (c, Receiving old) (dropped (streams (test c)) (streams (test c'))) (c', Top old)"
proof (cases m)
  case (CreateStream s)
  let ?c = "create_and_register_stream_worker s (c\<lparr>mailbox := ms\<rparr>)"
  have c: "wf_map (streams (test ?c))" "test_role (test ?c) = Server"
    using assms(1,2) by (simp_all add: register_eq wf_streams_update)
  show ?thesis
  proof (cases "length (streams (test ?c)) = total_needed_streams (test c)")
    case True
    have one: "controller_resume ev False (c, Receiving old) = (?c, Announcing Running True old)"
      using True assms(3) CreateStream by (simp add: controller_resume_def receive_def Let_def)
    obtain t where t: "set_state Running (test ?c) = (r, t)" "c' = ?c\<lparr>test := t\<rparr>"
      using assms(2,4) CreateStream True
      by (auto simp: process_internal_message_def accept_stream_def Let_def split: prod.splits)
    have "streams t = streams (test ?c)" using set_state_frame [OF t(1)] by simp
    show ?thesis
    proof (cases r)
      case (Inl e)
      then have "settles ev (?c, Announcing Running True old) [] (c', Ended)"
        using settles_announce [OF c, where st = Running and ev = ev and strict = True and old = old] t by simp
      from settles.step [OF _ one this] show ?thesis using Inl by auto
    next
      case (Inr u)
      then have "settles ev (?c, Announcing Running True old) [] (c', Top old)"
        using settles_announce [OF c, where st = Running and ev = ev and strict = True and old = old] t by simp
      from settles.step [OF _ one this] show ?thesis
        using Inr t(2) \<open>streams t = streams (test ?c)\<close> c(1) by simp
    qed
  next
    case False
    have one: "controller_resume ev False (c, Receiving old) = (?c, Top old)"
      using False assms(3) CreateStream by (simp add: controller_resume_def receive_def Let_def)
    have "r = Inr ()" "c' = ?c"
      using assms(2,4) CreateStream False
      by (auto simp: process_internal_message_def accept_stream_def Let_def)
    then show ?thesis using settles.step [OF _ one settles.stay] c(1) by simp
  qed
next
  case (StreamTerminated sid)
  define c1 where "c1 = c\<lparr>mailbox := ms, test := (test c)\<lparr>streams := AList.delete sid (streams (test c))\<rparr>\<rparr>"
  have wf: "wf_map (streams (test c1))" and role: "test_role (test c1) = Server"
    using assms(1,2) by (simp_all add: c1_def wf_streams_delete)
  have after: "settles ev (after_termination d old) [] (d', Top old) \<and> wf_map (streams (test d'))
      \<and> streams (test d') = streams (test d)"
    if "test d = test c1" "d' = (if streams (test d) = [] then d\<lparr>test := snd (set_state ExchangeResults (test d))\<rparr> else d)" for d d'
  proof -
    have "streams (snd (set_state ExchangeResults (test d))) = streams (test d)"
      using set_state_frame [OF prod.collapse [symmetric]] by blast
    then have "streams (test d') = streams (test d)" using that(2) by simp
    moreover have "settles ev (after_termination d old) [] (d', Top old)"
      using settles_terminated [where c = d and ev = ev and old = old] wf role that by simp
    ultimately show ?thesis using wf that(1) by simp
  qed
  have pm: "(r, c') = (case join_terminated (joins ev) sid (map_of (streams (test c)) sid) c1 of
      Inl e \<Rightarrow> (Inl e, c1)
    | Inr c2 \<Rightarrow> (Inr (), if streams (test c2) = [] then c2\<lparr>test := snd (set_state ExchangeResults (test c2))\<rparr> else c2))"
  proof (cases "join_terminated (joins ev) sid (map_of (streams (test c)) sid) c1")
    case (Inl e)
    then show ?thesis
      using assms(4) StreamTerminated by (simp add: process_internal_message_def stream_terminated_def c1_def)
  next
    case (Inr c2)
    have "test_role (test c2) = Server" using join_terminated_frame [OF Inr] role by simp
    with Inr show ?thesis
      using assms(4) StreamTerminated
      by (simp add: process_internal_message_def stream_terminated_def c1_def split: if_splits)
  qed
  show ?thesis
  proof (cases "map_of (streams (test c)) sid")
    case None
    have one: "controller_resume ev False (c, Receiving old) = after_termination c1 old"
      using None assms(3) StreamTerminated by (simp add: controller_resume_def receive_def Let_def c1_def)
    obtain pc where pc: "after_termination c1 old = (c1, pc)" by (auto simp: after_termination_frame)
    have "r = Inr ()" "c' = (if streams (test c1) = [] then c1\<lparr>test := snd (set_state ExchangeResults (test c1))\<rparr> else c1)"
      using pm None by (simp_all add: join_terminated_def)
    then show ?thesis
      using after [OF refl, of c'] settles.step [OF _ one [unfolded pc]] pc by fastforce
  next
    case (Some w)
    have one: "controller_resume ev False (c, Receiving old) = (c1, Joining sid w old)"
      using Some assms(3) StreamTerminated by (simp add: controller_resume_def receive_def Let_def c1_def)
    show ?thesis
    proof (cases "join_terminated (joins ev) sid (Some w) c1")
      case (Inl e)
      then have two: "controller_resume ev False (c1, Joining sid w old) = (c1, Ended)"
        by (simp add: controller_resume_def)
      have "r = Inl e" using pm Some Inl by simp
      then show ?thesis using settles.step [OF _ one settles.step [OF _ two settles.stay]] by auto
    next
      case (Inr c2)
      then have two: "controller_resume ev False (c1, Joining sid w old) = after_termination c2 old"
        by (simp add: controller_resume_def)
      obtain pc where pc: "after_termination c2 old = (c2, pc)" by (auto simp: after_termination_frame)
      have c2: "test c2 = test c1" using join_terminated_frame [OF Inr] by simp
      have r: "r = Inr ()" "c' = (if streams (test c2) = [] then c2\<lparr>test := snd (set_state ExchangeResults (test c2))\<rparr> else c2)"
        using pm Some Inr by simp_all
      note a = after [OF c2 r(2)]
      have "settles ev (c1, Joining sid w old) [] (c', Top old)"
        by (rule settles_same [OF _ _ two [unfolded pc]]) (use a pc wf c2 in simp_all)
      then show ?thesis using settles.step [OF _ one] a r(1) c2 by fastforce
    qed
  qed
qed

section \<open>The simulation\<close>

definition matches :: "server \<Rightarrow> tasks \<Rightarrow> bool" where
  "matches srv s \<longleftrightarrow> acceptor_at s = Accepting \<and> answers s = replies srv
     \<and> mset (orphans s) = mset (detached srv)
     \<and> (case in_flight srv of
          None \<Rightarrow> \<not> alive s
        | Some (c, Spawned) \<Rightarrow> flight s = Some (c, Starting)
        | Some (c, Waiting st) \<Rightarrow> flight s = Some (c, Receiving st))"

lemma matches_flight:
  assumes "matches srv s" "in_flight srv = Some (c, ph)"
  obtains pc where "flight s = Some (c, pc)" "pc \<noteq> Ended" "alive s"
  using assms by (cases ph) (auto simp: matches_def alive_def)

lemma matches_update:
  assumes "matches srv s" "in_flight srv = Some (c, ph)" "flight s = Some (c, pc)"
    and "mset ds' = mset ds"
  shows "matches (srv\<lparr>detached := ds, in_flight := Some (d, ph)\<rparr>) (s\<lparr>orphans := ds', flight := Some (d, pc)\<rparr>)"
  using assms by (cases ph) (auto simp: matches_def)

lemma matches_flight_update:
  assumes "matches srv s" "in_flight srv = Some (c, ph)" "flight s = Some (c, pc)"
  shows "matches (srv\<lparr>in_flight := Some (d, ph)\<rparr>) (s\<lparr>flight := Some (d, pc)\<rparr>)"
  using assms by (cases ph) (auto simp: matches_def)

lemma matches_accept:
  assumes "serve_connection inb srv = (Inr (), srv')" "matches srv s"
  shows "\<exists>n t. schedule (Arrive inb # replicate n Accept) s = Some t \<and> matches srv' t"
proof -
  have at: "acceptor_at s = Accepting" and an: "answers s = replies srv" and orp: "mset (orphans s) = mset (detached srv)"
    using assms(2) by (simp_all add: matches_def)
  have arrive: "schedule (Arrive inb # replicate n Accept) s = Some t"
    if "schedule (replicate n Accept) (s\<lparr>acceptor_at := (if alive s then Locking inb else Negotiating inb)\<rparr>) = Some t" for n t
    using that at by (simp add: perform_def accept_inbound_def)
  note defs = perform_def acceptor_resume_def write_answer_def
  show ?thesis
  proof (cases "in_flight srv")
    case None
    then have "\<not> alive s" using assms(2) by (simp add: matches_def)
    let ?t = "acceptor_resume (s\<lparr>acceptor_at := Negotiating inb\<rparr>)"
    have "schedule (Arrive inb # replicate 1 Accept) s = Some ?t"
      by (rule arrive) (use \<open>\<not> alive s\<close> in \<open>simp add: perform_def\<close>)
    moreover have "matches srv' ?t"
      using assms(1) None an orp \<open>\<not> alive s\<close>
      by (auto simp: serve_connection_def matches_def defs reply_def alive_def Let_def split: sum.splits if_splits)
    ultimately show ?thesis by blast
  next
    case (Some x)
    obtain c ph where x: "x = (c, ph)" by (cases x)
    obtain pc where pc: "flight s = Some (c, pc)" "pc \<noteq> Ended" "alive s"
      using matches_flight assms(2) Some x by blast
    show ?thesis
    proof (cases "\<exists>ck. test_state (test c) = CreateStreams ck")
      case False
      let ?t = "(write_answer (inb_stream inb) already_in_flight s)\<lparr>acceptor_at := Accepting\<rparr>"
      have "schedule (Arrive inb # replicate 2 Accept) s = Some ?t"
        by (rule arrive) (use pc False in \<open>simp add: defs numeral_2_eq_2 split: state.splits\<close>)
      moreover have "srv' = reply (inb_stream inb) already_in_flight srv"
        using assms(1) Some x False by (auto simp: serve_connection_def split: state.splits)
      then have "matches srv' ?t"
        using assms(2) Some x by (cases ph) (simp_all add: matches_def reply_def write_answer_def)
      ultimately show ?thesis by blast
    next
      case True
      then obtain ck where ck: "test_state (test c) = CreateStreams ck" by blast
      show ?thesis
      proof (cases "inb_first inb = Inr (Hello ck)")
        case False
        let ?t = "(write_answer (inb_stream inb) already_in_flight s)\<lparr>acceptor_at := Accepting\<rparr>"
        obtain k where k: "read_cookie (inb_first inb) = Inr k" "k \<noteq> ck" "srv' = reply (inb_stream inb) already_in_flight srv"
          using assms(1) Some x ck False
          by (auto simp: serve_connection_def read_cookie_def Let_def split: sum.splits prod.splits client_message.splits if_splits)
        have "schedule (Arrive inb # replicate 3 Accept) s = Some ?t"
          by (rule arrive) (use pc ck k in \<open>simp add: defs numeral_3_eq_3\<close>)
        moreover have "matches srv' ?t"
          using assms(2) k(3) Some x by (cases ph) (simp_all add: matches_def reply_def write_answer_def)
        ultimately show ?thesis by blast
      next
        case True
        obtain c' where c': "controller_try_send (CreateStream (inb_stream inb)) c = (Inr (), c')"
            "inb_welcome inb = Inr ()" "srv' = (reply (inb_stream inb) (ServerMessage Welcome) srv)\<lparr>in_flight := Some (c', ph)\<rparr>"
          using assms(1) Some x ck True
          by (auto simp: serve_connection_def read_cookie_def Let_def split: sum.splits prod.splits)
        let ?t = "(write_answer (inb_stream inb) (ServerMessage Welcome) s)\<lparr>acceptor_at := Accepting, flight := Some (c', pc)\<rparr>"
        have "schedule (Arrive inb # replicate 3 Accept) s = Some ?t"
          by (rule arrive) (use pc ck True c' in \<open>simp add: defs read_cookie_def hand_over_def numeral_3_eq_3\<close>)
        moreover have "matches srv' ?t"
          using assms(2) c'(3) Some x pc by (cases ph) (simp_all add: matches_def reply_def write_answer_def)
        ultimately show ?thesis by blast
      qed
    qed
  qed
qed

lemma matches_settle:
  assumes "matches srv s" "in_flight srv = Some (c, ph)" "flight s = Some (c, pc)" "pc \<noteq> Ended"
    and "settles ev (c, pc) (dropped (streams (test c)) (streams (test d))) (d, Top old)"
    and "wf_map (streams (test d))" "test_role (test d) = Server"
  shows "\<exists>n t. schedule (replicate n (Control ev)) s = Some t \<and> matches (settle c (controller_turns ev old d) srv) t"
proof -
  have at: "acceptor_at s = Accepting" "answers s = replies srv" "mset (orphans s) = mset (detached srv)"
    using assms(1) by (simp_all add: matches_def)
  note turns = settles_turns [OF assms(6,7), of ev old]
  show ?thesis
  proof (cases "\<exists>c' st. controller_turns ev old d = Wait c' st")
    case True
    then obtain c' st where w: "controller_turns ev old d = Wait c' st" by blast
    have "settles ev (c, pc) (dropped (streams (test c)) (streams (test d))) (c', Receiving st)"
      using settles_trans [OF assms(5)] turns w by fastforce
    moreover have "dropped (streams (test c)) (streams (test c')) = dropped (streams (test c)) (streams (test d))"
      by (rule same_workersD(2) [OF turns_server_streams [OF assms(7) w]])
    ultimately show ?thesis
      using settles_schedule [of ev "(c, pc)" _ "(c', Receiving st)" s] assms(3) at w
      by (fastforce simp: matches_def settle_def)
  next
    case False
    then obtain c' ds where "settles ev (d, Top old) ds (c', Ended)"
      using turns by (auto split: turn.splits)
    then obtain es where "settles ev (c, pc) es (c', Ended)" using settles_trans [OF assms(5)] by blast
    then show ?thesis
      using settles_schedule [of ev "(c, pc)" es "(c', Ended)" s] assms(3,4) at False
      by (fastforce simp: matches_def settle_def alive_def split: turn.splits)
  qed
qed

lemma matches_controller:
  assumes "matches srv s" "delivery_inv h srv"
  shows "\<exists>n t. schedule (replicate n (Control ev)) s = Some t \<and> matches (run_controller_task ev srv) t"
proof (cases "in_flight srv")
  case None
  then show ?thesis using assms(1) by (intro exI [of _ 0]) (simp add: run_controller_task_def)
next
  case (Some x)
  obtain c ph where x: "x = (c, ph)" by (cases x)
  have wf: "wf_map (streams (test c))" and role: "test_role (test c) = Server"
    using assms(2) Some x by (simp_all add: delivery_inv_def delivery_ok_def server_inv_def flight_ok_def)
  show ?thesis
  proof (cases ph)
    case Spawned
    have "settles ev (c, Starting) [] (c, Top (test_state (test c)))"
      by (rule settles_same [OF settles.stay]) (simp_all add: wf controller_resume_def)
    then show ?thesis
      using matches_settle [OF assms(1) Some [unfolded x], of Starting ev c "test_state (test c)"]
        assms(1) Some x Spawned wf role dropped_self [OF wf]
      by (simp add: matches_def run_controller_task_def)
  next
    case (Waiting st)
    then have fl: "flight s = Some (c, Receiving st)" using assms(1) Some x by (simp add: matches_def)
    show ?thesis
    proof (cases "mailbox c")
      case Nil
      then show ?thesis
        using assms(1) Some x Waiting by (intro exI [of _ 0]) (simp add: run_controller_task_def)
    next
      case (Cons m ms)
      obtain r d where pm: "process_internal_message (joins ev) (Some m) (c\<lparr>mailbox := ms\<rparr>) = (r, d)"
        by fastforce
      note msg = settles_message [OF wf role Cons pm, of st]
      show ?thesis
      proof (cases r)
        case (Inl e)
        then obtain d' ds where "settles ev (c, Receiving st) ds (d', Ended)" using msg by auto
        then show ?thesis
          using settles_schedule [of ev "(c, Receiving st)" ds "(d', Ended)" s] fl assms(1) Some x Waiting Cons pm Inl
          by (fastforce simp: matches_def run_controller_task_def settle_def alive_def)
      next
        case (Inr u)
        have "same_test c d" using process_message_frame [OF pm Cons] by blast
        then show ?thesis
          using matches_settle [OF assms(1) Some [unfolded x] fl, of ev d st] msg Inr role Some x Waiting Cons pm
          by (simp add: run_controller_task_def same_test_def)
      qed
    qed
  qed
qed

lemma schedule_append:
  "schedule (xs @ ys) s = (case schedule xs s of None \<Rightarrow> None | Some t \<Rightarrow> schedule ys t)"
  by (induction xs arbitrary: s) (simp_all split: option.splits)

lemma arrivals_replicate [simp]:
  "concat (map arrivals (replicate n Accept)) = []" "concat (map arrivals (replicate n (Control ev))) = []"
  by (induction n) simp_all

text \<open>
  C6. The atomic steps are no idealisation that hides a run: every state the system of theory \<open>Server\<close>
  reaches is reached, after the same connections, by the tasks interleaved at their awaits, with the same
  test in flight, the same answers written and the accept loop waiting for the next connection.
\<close>

theorem atomic_runs_are_interleavings:
  assumes "server_trace h srv"
  shows "\<exists>s. interleaved h s \<and> acceptor_at s = Accepting \<and> answers s = replies srv
    \<and> (case in_flight srv of
         None \<Rightarrow> \<not> alive s
       | Some (c, ph) \<Rightarrow> flight s = Some (c, case ph of Spawned \<Rightarrow> Starting | Waiting st \<Rightarrow> Receiving st))"
proof -
  have "\<exists>s. interleaved h s \<and> matches srv s"
    using assms
  proof (induction rule: server_trace_steps)
    case init
    have "matches server_init tasks_init"
      by (simp add: matches_def server_init_def tasks_init_def alive_def)
    then show ?case using interleaved.init by blast
  next
    case (accept h srv inb srv')
    then obtain s where s: "interleaved h s" "matches srv s" by blast
    then obtain n t where t: "schedule (Arrive inb # replicate n Accept) s = Some t" "matches srv' t"
      using matches_accept [OF accept.hyps(2)] by blast
    have "interleaved (h @ [inb]) t"
      using schedule_interleaved [OF s(1) t(1)] by simp
    then show ?case using t(2) by blast
  next
    case (controller h srv ev)
    then obtain s where s: "interleaved h s" "matches srv s" by blast
    have "delivery_inv h srv" using controller by (simp add: server_trace_delivery)
    then obtain n t where t: "schedule (replicate n (Control ev)) s = Some t" "matches (run_controller_task ev srv) t"
      using matches_controller [OF s(2)] by blast
    have "interleaved h t" using schedule_interleaved [OF s(1) t(1)] by simp
    then show ?case using t(2) by blast
  next
    case (worker h srv c ph sid)
    then obtain s where s: "interleaved h s" "matches srv s" by blast
    obtain pc where pc: "flight s = Some (c, pc)" "pc \<noteq> Ended" "alive s"
      using matches_flight [OF s(2) worker.hyps(2)] by blast
    have "perform (Finish sid) s = Some (s\<lparr>flight := Some (end_worker sid c, pc)\<rparr>)"
      using pc worker.hyps(3) by (simp add: perform_def)
    from interleaved.move [OF s(1) this] matches_flight_update [OF s(2) worker.hyps(2) pc(1)]
    show ?case by auto
  next
    case (orphan h srv c ph xs sid ys)
    then obtain s where s: "interleaved h s" "matches srv s" by blast
    obtain pc where pc: "flight s = Some (c, pc)" "pc \<noteq> Ended" "alive s"
      using matches_flight [OF s(2) orphan.hyps(2)] by blast
    have ms: "mset (orphans s) = mset (xs @ sid # ys)" using s(2) orphan.hyps(3) by (simp add: matches_def)
    then have "sid \<in> set (orphans s)" by (metis in_set_conv_decomp set_mset_mset)
    then have "perform (Orphan sid) s = Some (s\<lparr>orphans := remove1 sid (orphans s),
        flight := Some (snd (controller_try_send (StreamTerminated sid) c), pc)\<rparr>)"
      using pc by (simp add: perform_def)
    from interleaved.move [OF s(1) this]
      matches_update [OF s(2) orphan.hyps(2) pc(1), of "remove1 sid (orphans s)" "xs @ ys"] ms
    show ?case by auto
  next
    case (break h srv c ph)
    then obtain s where s: "interleaved h s" "matches srv s" by blast
    obtain pc where pc: "flight s = Some (c, pc)" "pc \<noteq> Ended" "alive s"
      using matches_flight [OF s(2) break.hyps(2)] by blast
    have "perform Cut s = Some (s\<lparr>flight := Some (c\<lparr>test := (test c)\<lparr>control_broken := True\<rparr>\<rparr>, pc)\<rparr>)"
      using pc by (simp add: perform_def)
    from interleaved.move [OF s(1) this] matches_flight_update [OF s(2) break.hyps(2) pc(1)]
    show ?case by auto
  qed
  then obtain s where s: "interleaved h s" "matches srv s" by blast
  have "case in_flight srv of None \<Rightarrow> \<not> alive s
       | Some (c, ph) \<Rightarrow> flight s = Some (c, case ph of Spawned \<Rightarrow> Starting | Waiting st \<Rightarrow> Receiving st)"
    using s(2) by (auto simp: matches_def split: option.splits phase.splits)
  then show ?thesis using s by (auto simp: matches_def)
qed

theorem atomic_runs_are_interleavings_witness:
  "\<exists>s. interleaved (served_by sample_run) s
    \<and> flight s = Some (the_controller sample_server, Receiving (CreateStreams ''k''))"
  using atomic_runs_are_interleavings [OF execute_init [OF sample_run_state(1)]] sample_run_state(2) by auto

end
