(* ===== verification/Interruptions.thy ===== *)
theory Interruptions
  imports InterleaveInv
begin

text \<open>
  What holds, and what can go wrong, when the tasks of the server interrupt each other at their awaits.
\<close>

section \<open>Concrete runs\<close>

abbreviation sample_control_move :: move where
  "sample_control_move \<equiv> Control (sample_env sample_stats test_results_default)"

text \<open>A test of one stream has been created, and the client's first data connection is queued.\<close>

definition created_run :: "move list" where
  "created_run = [Arrive (sample_control 1 ''k'' (sample_params ClientToServer 1)), Accept]
     @ replicate 5 sample_control_move @ [Arrive (sample_data 2 ''k''), Accept, Accept, Accept]"

text \<open>
  A second data connection stays silent: the controller registers the first, tells the client that the
  test runs, and waits for the mutex.
\<close>

definition silent_run :: "move list" where
  "silent_run = created_run @ [Arrive (sample_data 3 ''k''), Accept] @ replicate 3 sample_control_move"

text \<open>The control connection breaks instead, and then the second data connection presents the cookie.\<close>

definition failing_run :: "move list" where
  "failing_run = created_run @ [Cut, Arrive (sample_data 3 ''k''), Accept] @ replicate 2 sample_control_move
     @ [Accept, Accept]"

definition reached :: "move list \<Rightarrow> tasks" where
  "reached ms = the (schedule ms tasks_init)"

lemma silent_run_reached:
  "schedule silent_run tasks_init = Some (reached silent_run)"
  "acceptor_at (reached silent_run) = Reading (sample_data 3 ''k'') ''k''"
  "map_option snd (flight (reached silent_run)) = Some (Storing Running (CreateStreams ''k''))"
  "map_option (\<lambda>x. control_sent (test (fst x))) (flight (reached silent_run))
    = Some (map ToClient [Welcome, SetState (CreateStreams ''k''), SetState Running])"
  "map_option (\<lambda>x. map (\<lambda>(k, w). worker_stream (task w)) (streams (test (fst x)))) (flight (reached silent_run)) = Some [2]"
  by code_simp+

lemma failing_run_reached:
  "schedule failing_run tasks_init = Some (reached failing_run)"
  "acceptor_at (reached failing_run) = Stopped ChannelTerminated"
  "map snd (answers (reached failing_run)) = replicate 3 (ServerMessage Welcome)"
  by code_simp+

section \<open>Properties\<close>

text \<open>
  C1. Authentication holds however the tasks are interleaved at their awaits: every data stream of the
  test in flight, and every connection queued for its controller, presented the cookie of this test in
  its first message.
\<close>

theorem interleaved_streams_authenticated:
  assumes "interleaved h s" "flight s = Some (c, pc)"
    and "(k, w) \<in> set (streams (test c)) \<and> st = worker_stream (task w) \<or> CreateStream st \<in> set (mailbox c)"
  shows "\<exists>inb \<in> set h. inb_stream inb = st \<and> inb_first inb = Inr (Hello (cookie (test c)))"
proof -
  have "controller_ok h c pc" using interleaved_inv [OF assms(1)] assms(2) by (simp add: tasks_inv_def)
  moreover have "st \<in> connections c" using assms(3) by (force simp: connections_def)
  ultimately show ?thesis by (simp add: controller_ok_def)
qed

lemma silent_run_interleaved:
  "interleaved [sample_control 1 ''k'' (sample_params ClientToServer 1), sample_data 2 ''k'', sample_data 3 ''k'']
     (reached silent_run)"
  using schedule_interleaved [OF interleaved.init silent_run_reached(1)]
  by (simp add: silent_run_def created_run_def)

theorem interleaved_streams_authenticated_witness:
  "\<exists>c pc k w. flight (reached silent_run) = Some (c, pc) \<and> (k, w) \<in> set (streams (test c))
    \<and> (\<exists>inb \<in> {sample_control 1 ''k'' (sample_params ClientToServer 1), sample_data 2 ''k'', sample_data 3 ''k''}.
         inb_stream inb = worker_stream (task w) \<and> inb_first inb = Inr (Hello (cookie (test c))))"
proof -
  obtain c pc k w where "flight (reached silent_run) = Some (c, pc)" "streams (test c) = [(k, w)]"
    using silent_run_reached(5) by (auto simp: map_eq_Cons_conv)
  with interleaved_streams_authenticated [OF silent_run_interleaved this(1), of k w "worker_stream (task w)"]
  show ?thesis by (intro exI [of _ c] exI [of _ pc] exI [of _ k] exI [of _ w]) auto
qed

text \<open>
  C21. A peer that connects while streams are being created and stays silent stops the server: whatever
  the other tasks do while the accept loop waits for the first message, it serves no other connection,
  the test stays in \<open>CreateStreams\<close> and no worker is told to start.
\<close>

theorem silent_peer_stops_server:
  assumes "interleaved h s" "acceptor_at s = Reading inb ck"
    and "schedule ms s = Some t" "Accept \<notin> set ms"
  shows "acceptor_at t = Reading inb ck \<and> answers t = answers s
    \<and> (\<exists>c pc. flight t = Some (c, pc) \<and> cookie (test c) = ck \<and> test_state (test c) = CreateStreams ck
         \<and> list_all (\<lambda>(k, w). channel w = []) (streams (test c)))"
proof -
  have "creating ck s" using interleaved_inv [OF assms(1)] assms(2) by (simp add: tasks_inv_def acceptor_ok_def)
  then have t: "acceptor_at t = Reading inb ck" "answers t = answers s" "creating ck t"
    using schedule_waits [OF assms(3,4,2)] by auto
  have "idle_inv t" by (rule interleaved_idle [OF schedule_interleaved [OF assms(1,3)]])
  with t show ?thesis by (auto simp: creating_def idle_inv_def not_started_def idle_workers_def)
qed

theorem silent_peer_stops_server_witness:
  "\<exists>s t. schedule (created_run @ [Arrive (sample_data 3 ''k''), Accept]) tasks_init = Some s
    \<and> schedule (replicate 3 sample_control_move @ [Finish 0]) s = Some t
    \<and> (\<exists>c pc. flight t = Some (c, pc) \<and> test_state (test c) = CreateStreams ''k'')"
proof -
  let ?s = "reached (created_run @ [Arrive (sample_data 3 ''k''), Accept])"
  let ?ms = "replicate 3 sample_control_move @ [Finish 0]"
  have s: "schedule (created_run @ [Arrive (sample_data 3 ''k''), Accept]) tasks_init = Some ?s"
    and at: "acceptor_at ?s = Reading (sample_data 3 ''k'') ''k''"
    and t: "schedule ?ms ?s = Some (the (schedule ?ms ?s))"
    by code_simp+
  show ?thesis
    using silent_peer_stops_server [OF schedule_interleaved [OF interleaved.init s] at t] s t by auto
qed

text \<open>
  C20. The mutex causes no deadlock: wherever the controller of the test in flight is, unless it waits for
  a message and there is none, it moves on after the accept loop has gone on at most twice (its peer has
  been read and answered).
\<close>

theorem controller_not_deadlocked:
  assumes "flight s = Some (c, pc)" "pc \<noteq> Ended" "\<forall>old. pc = Receiving old \<longrightarrow> mailbox c \<noteq> []"
  shows "\<exists>n t c' pc'. n \<le> 2 \<and> schedule (replicate n Accept @ [Control ev]) s = Some t
    \<and> flight t = Some (c', pc') \<and> pc' \<noteq> pc"
proof -
  have step: "\<exists>t c' pc'. schedule [Control ev] u = Some t \<and> flight t = Some (c', pc') \<and> pc' \<noteq> pc"
    if "flight u = Some (d, pc)" "\<not> guard_held (acceptor_at u)" "\<forall>old. pc = Receiving old \<longrightarrow> mailbox d \<noteq> []" for u d
  proof -
    have "snd (controller_resume ev False (d, pc)) \<noteq> pc"
      using assms(2) that(3)
      by (cases pc) (auto simp: controller_resume_def receive_def after_termination_def Let_def
          split: state.splits prod.splits sum.splits list.splits option.splits controller_message.splits)
    then show ?thesis using that(1,2) assms(2) by (auto simp: perform_def split: prod.splits)
  qed
  have accept: "\<exists>d. flight (acceptor_resume u) = Some (d, pc) \<and> (\<forall>old. pc = Receiving old \<longrightarrow> mailbox d \<noteq> [])"
    if "flight u = Some (d0, pc)" "\<forall>old. pc = Receiving old \<longrightarrow> mailbox d0 \<noteq> []" "guard_held (acceptor_at u)" for u d0
    using that by (cases rule: acceptor_resume_cases [of u]) auto
  show ?thesis
  proof (cases "guard_held (acceptor_at s)")
    case False
    then show ?thesis using step [OF assms(1) _ assms(3)] by (intro exI [of _ 0]) simp
  next
    case True
    obtain d where d: "flight (acceptor_resume s) = Some (d, pc)" "\<forall>old. pc = Receiving old \<longrightarrow> mailbox d \<noteq> []"
      using accept [OF assms(1,3) True] by blast
    show ?thesis
    proof (cases "guard_held (acceptor_at (acceptor_resume s))")
      case False
      then show ?thesis using step [OF d(1) _ d(2)] by (intro exI [of _ 1]) (simp add: perform_def)
    next
      case True
      obtain e where e: "flight (acceptor_resume (acceptor_resume s)) = Some (e, pc)"
          "\<forall>old. pc = Receiving old \<longrightarrow> mailbox e \<noteq> []"
        using accept [OF d True] by blast
      have "\<not> guard_held (acceptor_at (acceptor_resume (acceptor_resume s)))"
        using \<open>guard_held (acceptor_at s)\<close> True assms(1)
        by (cases "acceptor_at s") (auto simp: acceptor_resume_def Let_def
            split: sum.splits option.splits prod.splits if_splits)
      then show ?thesis
        using step [OF e(1) _ e(2)] by (intro exI [of _ 2]) (simp add: perform_def numeral_2_eq_2)
    qed
  qed
qed

theorem controller_not_deadlocked_witness:
  "\<exists>n t c' pc'. n \<le> 2 \<and> schedule (replicate n Accept @ [sample_control_move]) (reached silent_run) = Some t
    \<and> flight t = Some (c', pc') \<and> pc' \<noteq> Storing Running (CreateStreams ''k'')"
proof -
  obtain c where "flight (reached silent_run) = Some (c, Storing Running (CreateStreams ''k''))"
    using silent_run_reached(3) by auto
  then show ?thesis by (rule controller_not_deadlocked) simp_all
qed

text \<open>
  C5. The client hears of a state before the server is in it, and never of more than one: as long as the
  controller runs, it has written the welcome, then at most one \<open>CreateStreams\<close> with the cookie, then
  states \<open>Running\<close>, then at most one \<open>ExchangeResults\<close>; the last of these is the state of the test, or the
  one it is about to store when it gets the mutex, and then the one before is the state.
\<close>

theorem states_announced_ahead:
  assumes "interleaved h s" "flight s = Some (c, pc)" "pc \<noteq> Ended"
  shows "\<exists>ss k n e. control_sent (test c) = ToClient Welcome # map (\<lambda>st. ToClient (SetState st)) ss
    \<and> ss = replicate k (CreateStreams (cookie (test c))) @ replicate n Running @ replicate e ExchangeResults
    \<and> k \<le> 1 \<and> e \<le> 1 \<and> (k = 0 \<longrightarrow> ss = [])
    \<and> (case pc of
         Storing st old \<Rightarrow> ss \<noteq> [] \<and> last ss = st \<and> test_state (test c) = last (TestStart # butlast ss)
       | _ \<Rightarrow> test_state (test c) = last (TestStart # ss))"
proof -
  have an: "announces c pc" and ok: "controller_ok h c pc"
    using interleaved_announces [OF assms(1)] interleaved_inv [OF assms(1)] assms(2)
    by (simp_all add: announces_inv_def tasks_inv_def)
  let ?ck = "cookie (test c)" and ?st = "test_state (test c)"
  show ?thesis
  proof (cases "\<exists>st old. pc = Storing st old")
    case True
    then obtain st old where pc: "pc = Storing st old" by blast
    then obtain ss where ss: "told (test c) (ss @ [st])" "announced_states ?ck ?st ss"
      using an by (auto simp: announces_def)
    have "next_state ?ck ?st st" using ok pc by (simp add: controller_ok_def)
    then have "announced_states ?ck st (ss @ [st])" by (rule announced_states.further [OF ss(2)])
    then obtain k n e where form: "ss @ [st] = replicate k (CreateStreams ?ck) @ replicate n Running @ replicate e ExchangeResults"
        "k \<le> 1" "e \<le> 1" "k = 0 \<longrightarrow> ss @ [st] = []"
      by (rule announced_statesE)
    have "ss @ [st] \<noteq> [] \<and> last (ss @ [st]) = st \<and> ?st = last (TestStart # butlast (ss @ [st]))"
      using announced_states_last [OF ss(2)] by simp
    then show ?thesis using form ss(1) unfolding told_def pc point.case by blast
  next
    case False
    then obtain ss where ss: "told (test c) ss" "announced_states ?ck ?st ss"
      using an assms(3) by (cases pc) (auto simp: announces_def)
    obtain k n e where form: "ss = replicate k (CreateStreams ?ck) @ replicate n Running @ replicate e ExchangeResults"
        "k \<le> 1" "e \<le> 1" "k = 0 \<longrightarrow> ss = []"
      by (rule announced_statesE [OF ss(2)])
    have "case pc of Storing st old \<Rightarrow> ss \<noteq> [] \<and> last ss = st \<and> ?st = last (TestStart # butlast ss)
        | _ \<Rightarrow> ?st = last (TestStart # ss)"
      using announced_states_last [OF ss(2)] False by (cases pc) simp_all
    then show ?thesis using form ss(1) unfolding told_def by blast
  qed
qed

theorem states_announced_ahead_witness:
  "\<exists>c ss. map_option fst (flight (reached silent_run)) = Some c \<and> ss \<noteq> [] \<and> last ss = Running
    \<and> control_sent (test c) = ToClient Welcome # map (\<lambda>st. ToClient (SetState st)) ss
    \<and> test_state (test c) = last (TestStart # butlast ss)"
proof -
  obtain c where c: "flight (reached silent_run) = Some (c, Storing Running (CreateStreams ''k''))"
    using silent_run_reached(3) by auto
  then obtain ss where "control_sent (test c) = ToClient Welcome # map (\<lambda>st. ToClient (SetState st)) ss"
      "last ss = Running" "ss \<noteq> []" "test_state (test c) = last (TestStart # butlast ss)"
    using states_announced_ahead [OF silent_run_interleaved c]
    unfolding point.case by blast
  then show ?thesis using c by (intro exI [of _ c] exI [of _ ss]) simp
qed

text \<open>
  C22. A failed test can take the server with it: when the controller has ended while a further data
  connection was being read, and this connection then presents the cookie, it is welcomed, handing it
  over fails, and the accept loop returns; it serves no connection any more.
\<close>

theorem late_stream_ends_server:
  assumes "flight s = Some (c, Ended)" "acceptor_at s = Reading inb ck"
    and "inb_first inb = Inr (Hello ck)" "inb_welcome inb = Inr ()"
    and "schedule (Accept # Accept # ms) s = Some t"
  shows "acceptor_at t = Stopped ChannelTerminated
    \<and> answers t = answers s @ [(inb_stream inb, ServerMessage Welcome)]"
proof -
  have stopped: "acceptor_at u' = Stopped e \<and> answers u' = answers u"
    if "schedule ms u = Some u'" "acceptor_at u = Stopped e" "flight u = Some (c, Ended)" for u u' e
    using that
  proof (induction ms arbitrary: u)
    case (Cons m ms)
    then obtain v where v: "perform m u = Some v" "schedule ms v = Some u'" by (auto split: option.splits)
    then have "v = u" using Cons.prems(2,3)
      by (cases rule: perform_cases [OF v(1)]) (simp_all add: acceptor_resume_def)
    then show ?case using Cons.IH v(2) Cons.prems(2,3) by simp
  qed simp
  have "acceptor_resume (acceptor_resume s) = (write_answer (inb_stream inb) (ServerMessage Welcome) s)
      \<lparr>acceptor_at := Stopped ChannelTerminated\<rparr>"
    using assms(1-4) by (simp add: acceptor_resume_def read_cookie_def hand_over_def write_answer_def)
  moreover have "schedule ms (acceptor_resume (acceptor_resume s)) = Some t"
    using assms(5) by (simp add: perform_def)
  ultimately show ?thesis using stopped assms(1) by simp
qed

text \<open>The run in which this happens needs only one client.\<close>

theorem late_stream_ends_server_witness:
  "\<exists>s. interleaved [sample_control 1 ''k'' (sample_params ClientToServer 1), sample_data 2 ''k'', sample_data 3 ''k''] s
    \<and> acceptor_at s = Stopped ChannelTerminated
    \<and> answers s = [(1, ServerMessage Welcome), (2, ServerMessage Welcome), (3, ServerMessage Welcome)]"
proof -
  let ?run = "created_run @ [Cut, Arrive (sample_data 3 ''k''), Accept] @ replicate 2 sample_control_move"
  let ?s = "reached ?run" and ?h = "[sample_control 1 ''k'' (sample_params ClientToServer 1), sample_data 2 ''k'', sample_data 3 ''k'']"
  have s: "schedule ?run tasks_init = Some ?s" "acceptor_at ?s = Reading (sample_data 3 ''k'') ''k''"
      "map_option snd (flight ?s) = Some Ended" "answers ?s = [(1, ServerMessage Welcome), (2, ServerMessage Welcome)]"
    by code_simp+
  have i: "interleaved ?h ?s"
    using schedule_interleaved [OF interleaved.init s(1)] by (simp add: created_run_def)
  obtain c where c: "flight ?s = Some (c, Ended)" using s(3) by auto
  let ?t = "acceptor_resume (acceptor_resume ?s)"
  have "schedule [Accept, Accept] ?s = Some ?t" by (simp add: perform_def)
  with late_stream_ends_server [OF c s(2), of "[]" ?t] schedule_interleaved [OF i this] s(4)
  show ?thesis by (intro exI [of _ ?t]) (simp add: sample_data_def)
qed

end
