(* ===== verification/Announcements.thy ===== *)
theory Announcements
  imports ServerInv
begin

text \<open>
  The states a server announces: what it has written on the control connection of the test in flight is
  the welcome and then a run of the protocol's states in their order.
\<close>

section \<open>Runs of the protocol\<close>

inductive protocol_run :: "string \<Rightarrow> state \<Rightarrow> state list \<Rightarrow> bool" for ck where
  start: "protocol_run ck TestStart []"
| create: "protocol_run ck TestStart ss \<Longrightarrow> protocol_run ck (CreateStreams ck) (ss @ [CreateStreams ck])"
| run: "protocol_run ck (CreateStreams ck) ss \<Longrightarrow> protocol_run ck Running (ss @ [Running])"
| again: "protocol_run ck Running ss \<Longrightarrow> protocol_run ck Running (ss @ [Running])"

inductive_simps protocol_run_simps:
  "protocol_run ck TestStart ss" "protocol_run ck (CreateStreams k) ss" "protocol_run ck ExchangeResults ss"

inductive_cases protocol_run_RunningE: "protocol_run ck Running ss"

lemma protocol_run_Running:
  "protocol_run ck s ss \<Longrightarrow> s = Running \<Longrightarrow> \<exists>n. ss = CreateStreams ck # replicate (Suc n) Running"
proof (induction rule: protocol_run.induct)
  case (run ss)
  then show ?case by (auto simp: protocol_run_simps intro: exI [of _ 0])
next
  case (again ss)
  then obtain n where "ss = CreateStreams ck # replicate (Suc n) Running" by auto
  then have "ss @ [Running] = CreateStreams ck # replicate (Suc (Suc n)) Running"
    by (simp add: replicate_append_same)
  then show ?case by blast
qed simp_all

definition announced_run :: "perf_test \<Rightarrow> bool" where
  "announced_run t \<longleftrightarrow> (\<exists>ss. control_sent t = ToClient Welcome # map (\<lambda>s. ToClient (SetState s)) ss
     \<and> protocol_run (cookie t) (test_state t) ss)"

lemma announced_run_set:
  assumes "announced_run t" "set_state s t = (r, t')" "test_role t = Server"
    and "(test_state t, s) \<in> {(TestStart, CreateStreams (cookie t)), (CreateStreams (cookie t), Running), (Running, Running)}"
  shows "announced_run t'"
proof (rule set_state_cases [of t s])
  assume "set_state s t = (Inr (), t\<lparr>control_sent := control_sent t @ [ToClient (SetState s)], test_state := s\<rparr>)"
  then have t': "control_sent t' = control_sent t @ [ToClient (SetState s)]" "test_state t' = s" "cookie t' = cookie t"
    using assms(2) by auto
  obtain ss where ss: "control_sent t = ToClient Welcome # map (\<lambda>s. ToClient (SetState s)) ss"
      "protocol_run (cookie t) (test_state t) ss"
    using assms(1) by (auto simp: announced_run_def)
  have "protocol_run (cookie t) s (ss @ [s])"
    using ss(2) assms(4) by (auto intro: protocol_run.intros)
  then show ?thesis
    using ss(1) t' unfolding announced_run_def by (intro exI [of _ "ss @ [s]"]) simp
qed (use assms in auto)

section \<open>The operations of the controller\<close>

lemma accept_stream_announced:
  assumes "accept_stream s c = (r, c')" "announced_run (test c)"
    and "test_state (test c) \<in> {CreateStreams (cookie (test c)), Running}"
  shows "announced_run (test c')"
proof -
  let ?c1 = "create_and_register_stream_worker s c"
  have keep: "announced_run (test ?c1) = announced_run (test c)" "test_state (test ?c1) = test_state (test c)"
      "cookie (test ?c1) = cookie (test c)" "test_role (test ?c1) = test_role (test c)"
    by (simp_all add: register_eq announced_run_def)
  show ?thesis
    using assms announced_run_set [of "test ?c1" Running] keep
    by (auto simp: accept_stream_def Let_def split: if_splits prod.splits)
qed

lemma terminated_announced:
  assumes "process_internal_message join (Some (StreamTerminated sid)) c = (r, c')" "announced_run (test c)"
    and "test_state (test c') \<noteq> ExchangeResults"
  shows "announced_run (test c')"
proof -
  define c1 where "c1 = c\<lparr>test := (test c)\<lparr>streams := AList.delete sid (streams (test c))\<rparr>\<rparr>"
  have c1: "announced_run (test c1)" using assms(2) by (simp add: c1_def announced_run_def)
  obtain res where c': "c' = c1\<lparr>stream_results := res\<rparr>
      \<or> c' = c1\<lparr>stream_results := res, test := snd (set_state ExchangeResults (test c1))\<rparr>"
    using terminated_cases [OF assms(1) c1_def] by blast
  have "announced_run (snd (set_state ExchangeResults (test c1)))
      \<or> test_state (snd (set_state ExchangeResults (test c1))) = ExchangeResults"
    by (rule set_state_cases [of "test c1" ExchangeResults]) (use c1 in auto)
  then show ?thesis using c' c1 assms(3) by auto
qed

lemma turns_announced:
  assumes "controller_turns ev old c = Wait c' s" "test_role (test c) = Server" "announced_run (test c)"
  shows "announced_run (test c')"
proof (cases "test_state (test c)")
  case TestStart
  show ?thesis
  proof (cases "control_broken (test c)")
    case True
    then show ?thesis using assms(1,2) TestStart
      by (simp add: controller_turns.simps [of ev old c] controller_turn_def Let_def set_state_broken)
  next
    case False
    let ?s = "CreateStreams (cookie (test c))"
    have "set_state ?s (test c) = (Inr (), test c')"
      using assms(1,2) TestStart False by (auto simp: turns_server_start Let_def set_state_server)
    then show ?thesis using announced_run_set [OF assms(3)] assms(2) TestStart by blast
  qed
next
  case Running
  then have "test c' = test c \<or> test c' = test (broadcast_to_streams StartLoad (print Header c))"
    using assms(1) turns_running [of c ev] turns_running_start [of c old ev] by (cases "old = Running") auto
  then show ?thesis
    using assms(3) by (auto simp: broadcast_to_streams_def announced_run_def)
next
  case (CreateStreams k)
  then show ?thesis using assms by (auto simp: turns_server_create)
next
  case ExchangeResults
  then show ?thesis using turns_server [OF assms(2,1)] by auto
next
  case DisplayResults
  then have "controller_turn ev old c = Wait c DisplayResults" by (simp add: controller_turn_def Let_def)
  then show ?thesis using assms DisplayResults by (auto simp: controller_turns.simps [of ev old c])
qed

section \<open>The invariant\<close>

definition announcing :: "server \<Rightarrow> bool" where
  "announcing srv \<longleftrightarrow> (\<forall>c ph. in_flight srv = Some (c, ph) \<longrightarrow> announced_run (test c))"

lemma accept_announcing:
  assumes "serve_connection inb srv = (Inr (), srv')" "announcing srv"
  shows "announcing srv'"
  using assms(1)
proof (cases rule: serve_connection_cases)
  case (created t)
  obtain ck p where "t = perf_test_new None ck ([ToClient Welcome], False) Server p"
    using create_test_ok [OF created(2)] by blast
  then show ?thesis
    using created by (auto simp: announcing_def announced_run_def controller_new_def protocol_run_simps)
next
  case (queued c ph)
  then show ?thesis using assms(2) by (simp add: announcing_def)
next
  case unchanged
  then show ?thesis using assms(2) by (simp add: announcing_def)
qed

lemma settle_announcing:
  assumes "test_role (test d) = Server" "announced_run (test d) \<or> test_state (test d) = ExchangeResults"
  shows "announcing (settle c (controller_turns ev old d) srv)"
proof (cases "controller_turns ev old d")
  case (Wait e s)
  then have "announced_run (test e)"
    using turns_announced [OF Wait assms(1)] turns_server [OF assms(1) Wait] assms(2) by (auto split: if_splits)
  then show ?thesis by (simp add: Wait settle_def announcing_def)
qed (simp_all add: settle_def announcing_def)

lemma controller_task_announcing:
  assumes "server_inv h srv" "announcing srv"
  shows "announcing (run_controller_task ev srv)"
proof (cases "in_flight srv")
  case None
  then show ?thesis using assms by (simp add: run_controller_task_def)
next
  case (Some x)
  obtain c ph where x: "x = (c, ph)" by (cases x)
  have ok: "flight_ok h c ph" "announced_run (test c)"
    using assms Some x by (simp_all add: server_inv_def announcing_def)
  then have role: "test_role (test c) = Server" by (simp add: flight_ok_def)
  show ?thesis
  proof (cases ph)
    case Spawned
    then show ?thesis using settle_announcing [OF role] ok Some x by (simp add: run_controller_task_def)
  next
    case (Waiting s)
    show ?thesis
    proof (cases "mailbox c")
      case Nil
      then show ?thesis using Some x Waiting assms by (simp add: run_controller_task_def)
    next
      case (Cons m ms)
      let ?c = "c\<lparr>mailbox := ms\<rparr>"
      obtain r c' where pm: "process_internal_message (joins ev) (Some m) ?c = (r, c')" by fastforce
      have "announced_run (test c') \<or> test_state (test c') = ExchangeResults"
      proof (cases m)
        case (CreateStream st)
        then show ?thesis
          using accept_stream_announced [of st ?c r c'] pm ok Waiting
          by (simp add: process_internal_message_def flight_ok_def)
      next
        case (StreamTerminated sid)
        then show ?thesis using terminated_announced [of "joins ev" sid ?c r c'] pm ok(2) by auto
      qed
      moreover have "test_role (test c') = Server"
        using process_message_frame [OF pm Cons] role by (simp add: same_test_def)
      ultimately show ?thesis
        using settle_announcing [of c' c ev s srv] pm Some x Waiting Cons
        by (cases r) (simp_all add: run_controller_task_def settle_def announcing_def)
    qed
  qed
qed

lemma server_trace_announcing: "server_trace h srv \<Longrightarrow> announcing srv"
proof (induction rule: server_trace_steps)
  case init
  show ?case by (simp add: announcing_def server_init_def)
next
  case (accept h srv inb srv')
  then show ?case by (auto intro: accept_announcing)
next
  case (controller h srv ev)
  then show ?case by (simp add: controller_task_announcing [OF server_trace_inv])
qed (auto simp: announcing_def announced_run_def end_worker_def controller_try_send_def)

section \<open>Property\<close>

text \<open>
  The server follows the protocol: in every reachable state, what it has written on the control
  connection of the test in flight is the welcome, then, once the controller has run, the call to
  create streams with the cookie of the test, and then, once enough streams are connected, the start
  of the load (again for each stream that comes when others have ended); nothing else.
\<close>

theorem server_announces_in_order:
  assumes "server_trace h srv" "in_flight srv = Some (c, ph)"
  shows "\<exists>n. control_sent (test c) = ToClient Welcome # map (\<lambda>s. ToClient (SetState s))
    (case ph of Spawned \<Rightarrow> []
     | Waiting s \<Rightarrow> CreateStreams (cookie (test c)) # (if s = Running then replicate (Suc n) Running else []))"
proof -
  obtain ss where ss: "control_sent (test c) = ToClient Welcome # map (\<lambda>s. ToClient (SetState s)) ss"
      "protocol_run (cookie (test c)) (test_state (test c)) ss"
    using server_trace_announcing [OF assms(1)] assms(2) by (auto simp: announcing_def announced_run_def)
  have ok: "flight_ok h c ph" using server_trace_inv [OF assms(1)] assms(2) by (simp add: server_inv_def)
  show ?thesis
  proof (cases ph)
    case Spawned
    then show ?thesis using ss ok by (auto simp: flight_ok_def protocol_run_simps)
  next
    case (Waiting s)
    show ?thesis
    proof (cases "s = Running")
      case True
      then obtain n where "ss = CreateStreams (cookie (test c)) # replicate (Suc n) Running"
        using protocol_run_Running [OF ss(2)] ok Waiting by (auto simp: flight_ok_def)
      then show ?thesis using ss(1) Waiting True by (intro exI [of _ n]) simp
    next
      case False
      then have "ss = [CreateStreams (cookie (test c))]"
        using ok Waiting ss(2) by (auto simp: flight_ok_def protocol_run_simps)
      then show ?thesis using ss(1) Waiting False by simp
    qed
  qed
qed

theorem server_announces_in_order_witness:
  "control_sent (test (the_controller sample_server)) = [ToClient Welcome, ToClient (SetState (CreateStreams ''k''))]"
  using server_announces_in_order [OF execute_init [OF sample_run_state(1)] sample_run_state(2)] sample_run_state(5)
  by simp

end
