(* ===== verification/ClientSession.thy ===== *)
theory ClientSession
  imports Controller
begin

text \<open>
  The controller of the client from the start of a test to its end, driven by the states the
  server sends.
\<close>

section \<open>Opening the data streams\<close>

lemma connect_data_stream_cong [simp]:
  "connect_data_stream (t\<lparr>streams := x\<rparr>) = connect_data_stream t"
  "connect_data_stream (t\<lparr>test_state := s\<rparr>) = connect_data_stream t"
  by (simp_all add: connect_data_stream_def fun_eq_iff split: option.split sum.split)

lemma create_streams_loop_ok:
  assumes "streams (test c) = enum_streams (test c) cs"
    "map (connect_data_stream (test c)) ds = map Inr ss"
    "length cs + length ds = total_needed_streams (test c)"
  shows "create_streams_loop ds c =
    Some (Inr (), c\<lparr>test := (test c)\<lparr>streams := enum_streams (test c) (cs @ ss)\<rparr>\<rparr>)"
  using assms
proof (induction ds arbitrary: c cs ss)
  case Nil
  then show ?case by (simp add: create_streams_loop.simps)
next
  case (Cons d ds)
  then obtain s ss' where ss: "ss = s # ss'" "connect_data_stream (test c) d = Inr s"
      "map (connect_data_stream (test c)) ds = map Inr ss'" by (cases ss) auto
  let ?c = "c\<lparr>test := (test c)\<lparr>streams := enum_streams (test c) (cs @ [s])\<rparr>\<rparr>"
  have "create_streams_loop (d # ds) c = create_streams_loop ds ?c"
    using Cons.prems ss by (simp add: create_streams_loop.simps [of "d # ds"] register_enum)
  also have "\<dots> = Some (Inr (), ?c\<lparr>test := (test ?c)\<lparr>streams := enum_streams (test ?c) ((cs @ [s]) @ ss')\<rparr>\<rparr>)"
    by (rule Cons.IH) (use Cons.prems ss in auto)
  finally show ?case using ss by simp
qed

section \<open>One turn of the client\<close>

lemma turns_client_start:
  assumes "test_role (test c) = Client" "test_state (test c) = TestStart"
  shows "controller_turns ev old c = Wait c TestStart"
  using assms by (simp add: controller_turns.simps controller_turn_def Let_def)

lemma turns_client_create:
  assumes "test_role (test c) = Client" "test_state (test c) = CreateStreams k"
    "streams (test c) = []" "map (connect_data_stream (test c)) (dials ev) = map Inr ss"
    "length ss = total_needed_streams (test c)"
  shows "controller_turns ev old c =
    Wait (c\<lparr>test := (test c)\<lparr>streams := enum_streams (test c) ss\<rparr>\<rparr>) (CreateStreams k)"
  using create_streams_loop_ok [of c "[]" "dials ev" ss] assms
  by (simp add: controller_turns.simps [of ev old] controller_turn_def Let_def create_streams_def
      map_eq_imp_length_eq [OF assms(4)])

lemma client_terminations:
  assumes "test_role (test c) = Client" "test_state (test c) = Running" 
    "distinct (map fst ts)" "set (map fst ts) \<subseteq> set (keys (streams (test c)))"
    "\<forall>(sid, ev') \<in> set ts. joins ev' sid \<noteq> JoinError"
  shows "\<exists>ev''. controller_loop ev Running c (term_events ts @ es) =
    controller_loop ev'' Running
      (c\<lparr>stream_results := gather ts (stream_results c),
         test := (test c)\<lparr>streams := fold (\<lambda>x. AList.delete (fst x)) ts (streams (test c))\<rparr>\<rparr>) es"
  using assms
proof (induction ts arbitrary: c ev)
  case Nil
  then show ?case by auto
next
  case (Cons x ts)
  obtain sid ev' where x: "x = (sid, ev')" by (cases x)
  let ?c = "c\<lparr>test := (test c)\<lparr>streams := AList.delete sid (streams (test c))\<rparr>,
      stream_results := add_result (joins ev' sid) sid (stream_results c)\<rparr>"
  have "process_internal_message (joins ev') (Some (StreamTerminated sid)) c = (Inr (), ?c)"
    using process_terminated [of sid c ev'] Cons.prems x by (simp add: Let_def)
  then have "controller_loop ev Running c (term_events (x # ts) @ es)
      = controller_loop ev' Running ?c (term_events ts @ es)"
    using Cons.prems x by (simp add: turns_running process_event_def)
  moreover have "set (map fst ts) \<subseteq> set (keys (streams (test ?c)))"
    using Cons.prems(3,4) x by (auto simp: set_keys_delete simp del: set_map)
  then have "\<exists>ev''. controller_loop ev' Running ?c (term_events ts @ es) =
    controller_loop ev'' Running
      (?c\<lparr>stream_results := gather ts (stream_results ?c),
         test := (test ?c)\<lparr>streams := fold (\<lambda>x. AList.delete (fst x)) ts (streams (test ?c))\<rparr>\<rparr>) es"
    by (intro Cons.IH) (use Cons.prems in auto)
  ultimately show ?case using x by auto
qed


section \<open>Collecting the results\<close>

lemma map_of_collect:
  "distinct (keys ws) \<Longrightarrow> map_of (collect_streams ev ws r) k =
     (if k \<in> set (keys ws) \<and> in_time ev k
      then (case joins ev k of Joined (Inr st) \<Rightarrow> Some st | _ \<Rightarrow> map_of r k)
      else map_of r k)"
proof (induction ev ws r rule: collect_streams.induct)
  case (2 ev sid w ws r)
  let ?r = "if in_time ev sid then add_result (joins ev sid) sid r else r"
  have r: "(if in_time ev sid then
        (case joins ev sid of Joined (Inr stats) \<Rightarrow> AList.update sid stats r
         | Joined (Inl e) \<Rightarrow> r | JoinError \<Rightarrow> r) else r) = ?r"
    by (simp add: add_result_def split: join_outcome.split sum.split)
  have step: "collect_streams ev ((sid, w) # ws) r = collect_streams ev ws ?r"
    by (simp add: r [symmetric])
  have IH: "map_of (collect_streams ev ws ?r) k =
     (if k \<in> set (keys ws) \<and> in_time ev k
      then (case joins ev k of Joined (Inr st) \<Rightarrow> Some st | _ \<Rightarrow> map_of ?r k)
      else map_of ?r k)"
    by (rule "2.IH" [unfolded r]) (use "2.prems" in simp)
  show ?case
  proof (cases "k = sid")
    case True
    then have "k \<notin> set (keys ws)" using "2.prems" by simp
    then show ?thesis unfolding step IH using True
      by (simp add: map_of_add_result split: join_outcome.split sum.split)
  next
    case False
    then have r: "map_of ?r k = map_of r k" by (simp add: map_of_add_result)
    show ?thesis unfolding step IH r using False by simp
  qed
qed simp

lemma keys_delete_all:
  "keys (fold (\<lambda>x. AList.delete (fst x)) ts m) = filter (\<lambda>k. k \<notin> set (map fst ts)) (keys m)"
  by (induction ts arbitrary: m) (auto simp: keys_delete intro: filter_cong)

lemma turns_client_exchange:
  assumes "test_role (test c) = Client" "test_state (test c) = ExchangeResults"
    "\<not> control_broken (test c)" "from_server ev = Inr (ServerSendResults remote)"
  shows "\<exists>c' loc. controller_turns ev old c = Finished c'
    \<and> loc = \<lparr>results_streams = collect_streams ev
         (streams (test (broadcast_to_streams Terminate c))) (stream_results c)\<rparr>
    \<and> control_sent (test c') = control_sent (test c) @ [ToServer (ClientSendResults loc)]
    \<and> printed c' = printed c @ [Summary loc remote (direction (params (test c)))]
        @ (if measure_latency (params (test c)) then [LatencySummary loc remote] else []) @ [Done]"
  using assms
  by (simp add: controller_turns.simps [of ev old] controller_turn_def
      collect_test_result_def Let_def exchange_results_def control_send_def print_results_def)

definition fresh_client :: "string \<Rightarrow> string \<Rightarrow> wire_message list \<Rightarrow> test_parameters \<Rightarrow> controller" where
  "fresh_client address ck sent_before p =
     controller_new (perf_test_new (Some address) ck (sent_before, False) Client p)"

text \<open>The client when the load has just started on the connections \<open>cs\<close>.\<close>

definition client_running ::
    "string \<Rightarrow> string \<Rightarrow> wire_message list \<Rightarrow> test_parameters \<Rightarrow> tcp_stream list \<Rightarrow> controller" where
  "client_running a ck sent0 p cs =
     (let c = fresh_client a ck sent0 p; t = test c
      in broadcast_to_streams StartLoad (print Header (c\<lparr>test := t\<lparr>streams := enum_streams t cs, test_state := Running\<rparr>\<rparr>)))"

lemma client_running_simps [simp]:
  "test_role (test (client_running a ck sent0 p cs)) = Client"
  "test_state (test (client_running a ck sent0 p cs)) = Running"
  "control_broken (test (client_running a ck sent0 p cs)) = False"
  "params (test (client_running a ck sent0 p cs)) = p"
  "control_sent (test (client_running a ck sent0 p cs)) = sent0"
  "keys (streams (test (client_running a ck sent0 p cs))) = [0..<length cs]"
  "printed (client_running a ck sent0 p cs) = [Header]"
  "stream_results (client_running a ck sent0 p cs) = []"
  by (simp_all add: client_running_def fresh_client_def controller_new_def Let_def)

lemma process_set_state:
  "test_role (test c) = Client \<Longrightarrow>
     process_event e (ServerSays (Inr (SetState s))) c = (Inr (), c\<lparr>test := (test c)\<lparr>test_state := s\<rparr>\<rparr>)"
  by (simp add: process_event_def process_server_message_def with_context_def set_state_client)

lemma client_load_phase:
  assumes "map (connect_data_stream (test (fresh_client a ck sent0 p))) (dials ev1) = map Inr conns"
    and "length conns = total_needed_streams (test (fresh_client a ck sent0 p))"
  shows "run_controller ev (fresh_client a ck sent0 p)
      ((ServerSays (Inr (SetState (CreateStreams k))), ev1) # (ServerSays (Inr (SetState Running)), ev2) # es)
    = controller_loop ev2 Running (client_running a ck sent0 p conns) es"
proof -
  let ?c = "fresh_client a ck sent0 p"
  let ?start = "?c\<lparr>test := (test ?c)\<lparr>test_state := CreateStreams k\<rparr>\<rparr>"
  define c1 where "c1 = ?c\<lparr>test := (test ?c)\<lparr>test_state := CreateStreams k, streams := enum_streams (test ?c) conns\<rparr>\<rparr>"
  define c2 where "c2 = c1\<lparr>test := (test c1)\<lparr>test_state := Running\<rparr>\<rparr>"
  have c: "test_role (test ?c) = Client" "test_state (test ?c) = TestStart" "streams (test ?c) = []"
    by (simp_all add: fresh_client_def controller_new_def)
  have c1: "controller_turns ev1 TestStart ?start = Wait c1 (CreateStreams k)" "test_role (test c1) = Client"
    using turns_client_create [of ?start k ev1 conns TestStart] c assms by (simp_all add: c1_def)
  have "run_controller ev ?c
      ((ServerSays (Inr (SetState (CreateStreams k))), ev1) # (ServerSays (Inr (SetState Running)), ev2) # es)
    = controller_loop ev1 TestStart ?start ((ServerSays (Inr (SetState Running)), ev2) # es)"
    using c by (simp add: run_controller_def turns_client_start process_set_state)
  also have "\<dots> = controller_loop ev2 (CreateStreams k) c2 es"
    using c1 by (simp add: process_set_state c2_def)
  also have "\<dots> = controller_loop ev2 Running (broadcast_to_streams StartLoad (print Header c2)) es"
    by (rule controller_loop_cong) (simp add: turns_running turns_running_start c2_def)
  also have "broadcast_to_streams StartLoad (print Header c2) = client_running a ck sent0 p conns"
    by (simp add: client_running_def c2_def c1_def Let_def)
  finally show ?thesis .
qed

text \<open>
  From the running load to the end: \<open>ws\<close> are the streams still in the table when the server asks for results.
\<close>

lemma client_finish_phase:
  assumes "test_role (test c) = Client" "test_state (test c) = Running" "\<not> control_broken (test c)"
    and "distinct (map fst terms)" "set (map fst terms) \<subseteq> set (keys (streams (test c)))"
    and "\<forall>(sid, ev') \<in> set terms. joins ev' sid \<noteq> JoinError"
    and "from_server ev3 = Inr (ServerSendResults remote)"
  shows "\<exists>c' ws. controller_loop ev2 Running c (term_events terms @ [(ServerSays (Inr (SetState ExchangeResults)), ev3)]) = Finished c'
    \<and> keys ws = filter (\<lambda>i. i \<notin> set (map fst terms)) (keys (streams (test c)))
    \<and> (let loc = \<lparr>results_streams = collect_streams ev3 ws (gather terms (stream_results c))\<rparr>
       in control_sent (test c') = control_sent (test c) @ [ToServer (ClientSendResults loc)]
          \<and> printed c' = printed c @ [Summary loc remote (direction (params (test c)))]
              @ (if measure_latency (params (test c)) then [LatencySummary loc remote] else []) @ [Done])"
proof -
  define c4 where "c4 = c\<lparr>stream_results := gather terms (stream_results c),
      test := (test c)\<lparr>streams := fold (\<lambda>x. AList.delete (fst x)) terms (streams (test c))\<rparr>\<rparr>"
  define c5 where "c5 = c4\<lparr>test := (test c4)\<lparr>test_state := ExchangeResults\<rparr>\<rparr>"
  have c4: "test_role (test c4) = Client" "test_state (test c4) = Running" using assms(1,2) by (simp_all add: c4_def)
  obtain ev'' where "controller_loop ev2 Running c (term_events terms @ [(ServerSays (Inr (SetState ExchangeResults)), ev3)])
      = controller_loop ev'' Running c4 [(ServerSays (Inr (SetState ExchangeResults)), ev3)]"
    using client_terminations [of c terms ev2 "[(ServerSays (Inr (SetState ExchangeResults)), ev3)]"] assms(1-6)
    unfolding c4_def by blast
  also have "\<dots> = controller_turns ev3 Running c5"
    using c4 by (simp add: turns_running process_set_state c5_def)
  finally have run: "controller_loop ev2 Running c (term_events terms @ [(ServerSays (Inr (SetState ExchangeResults)), ev3)])
      = controller_turns ev3 Running c5" .
  have c5: "test_role (test c5) = Client" "test_state (test c5) = ExchangeResults" "\<not> control_broken (test c5)"
      "params (test c5) = params (test c)" "control_sent (test c5) = control_sent (test c)" "printed c5 = printed c"
      "stream_results c5 = gather terms (stream_results c)"
    using assms(1,3) by (simp_all add: c5_def c4_def)
  have "keys (streams (test (broadcast_to_streams Terminate c5))) = filter (\<lambda>i. i \<notin> set (map fst terms)) (keys (streams (test c)))"
    by (simp add: c5_def c4_def keys_delete_all)
  then show ?thesis
    using turns_client_exchange [OF c5(1-3) assms(7), of Running] unfolding run c5(4-7) Let_def by blast
qed

text \<open>A whole session of the client.\<close>

lemma client_session:
  assumes "map (connect_data_stream (test (fresh_client a ck sent0 p))) (dials ev1) = map Inr conns"
    and "length conns = total_needed_streams (test (fresh_client a ck sent0 p))"
    and "distinct (map fst terms)" "set (map fst terms) \<subseteq> {..<length conns}"
    and "\<forall>(sid, ev') \<in> set terms. joins ev' sid \<noteq> JoinError"
    and "from_server ev3 = Inr (ServerSendResults remote)"
  shows "\<exists>c' ws loc. run_controller ev (fresh_client a ck sent0 p)
      ((ServerSays (Inr (SetState (CreateStreams k))), ev1) # (ServerSays (Inr (SetState Running)), ev2)
       # term_events terms @ [(ServerSays (Inr (SetState ExchangeResults)), ev3)]) = Finished c'
    \<and> keys ws = filter (\<lambda>i. i \<notin> set (map fst terms)) [0..<length conns]
    \<and> loc = \<lparr>results_streams = collect_streams ev3 ws (gather terms [])\<rparr>
    \<and> control_sent (test c') = sent0 @ [ToServer (ClientSendResults loc)]
    \<and> printed c' = [Header, Summary loc remote (direction p)]
        @ (if measure_latency p then [LatencySummary loc remote] else []) @ [Done]"
proof -
  let ?c = "client_running a ck sent0 p conns"
  have "set (map fst terms) \<subseteq> set (keys (streams (test ?c)))"
    using assms(4) by (simp add: lessThan_atLeast0 del: set_map)
  then show ?thesis
    using client_finish_phase [of ?c terms ev3 remote ev2] client_load_phase [OF assms(1,2)] assms(3,5,6)
    by (auto simp: Let_def cong: if_cong)
qed

text \<open>
  C3. A client follows its server to the end: asked to create streams it opens exactly as many as
  needed; asked to run it starts the load; asked for results it collects those of the workers that
  have ended before or end in time, sends them once, and prints both sides' results.
\<close>

theorem client_session_completes:
  assumes "map (connect_data_stream (test (fresh_client a ck sent0 p))) (dials ev1) = map Inr conns"
    and "length conns = total_needed_streams (test (fresh_client a ck sent0 p))"
    and "distinct (map fst terms)" "set (map fst terms) \<subseteq> {..<length conns}"
    and "\<forall>(sid, ev') \<in> set terms. joins ev' sid \<noteq> JoinError"
    and "from_server ev3 = Inr (ServerSendResults remote)"
  shows "\<exists>c' loc. run_controller ev (fresh_client a ck sent0 p)
      ((ServerSays (Inr (SetState (CreateStreams k))), ev1) # (ServerSays (Inr (SetState Running)), ev2)
       # term_events terms @ [(ServerSays (Inr (SetState ExchangeResults)), ev3)]) = Finished c'
    \<and> control_sent (test c') = sent0 @ [ToServer (ClientSendResults loc)]
    \<and> printed c' = [Header, Summary loc remote (direction p)]
        @ (if measure_latency p then [LatencySummary loc remote] else []) @ [Done]
    \<and> (\<forall>sid. map_of (results_streams loc) sid =
         (case map_of terms sid of
            Some ev' \<Rightarrow> (case joins ev' sid of Joined (Inr stats) \<Rightarrow> Some stats | _ \<Rightarrow> None)
          | None \<Rightarrow> if sid < length conns \<and> in_time ev3 sid
                     then (case joins ev3 sid of Joined (Inr stats) \<Rightarrow> Some stats | _ \<Rightarrow> None)
                     else None))"
proof -
  obtain c' ws loc where run: "run_controller ev (fresh_client a ck sent0 p)
      ((ServerSays (Inr (SetState (CreateStreams k))), ev1) # (ServerSays (Inr (SetState Running)), ev2)
       # term_events terms @ [(ServerSays (Inr (SetState ExchangeResults)), ev3)]) = Finished c'"
      "control_sent (test c') = sent0 @ [ToServer (ClientSendResults loc)]"
      "printed c' = [Header, Summary loc remote (direction p)]
        @ (if measure_latency p then [LatencySummary loc remote] else []) @ [Done]"
    and ws: "keys ws = filter (\<lambda>i. i \<notin> set (map fst terms)) [0..<length conns]"
    and loc: "loc = \<lparr>results_streams = collect_streams ev3 ws (gather terms [])\<rparr>"
    using client_session [OF assms, of ev k ev2] by blast
  have "distinct (keys ws)" unfolding ws by simp
  moreover have "sid \<in> set (keys ws) \<longleftrightarrow> sid < length conns \<and> map_of terms sid = None" for sid
    unfolding ws by (auto simp: map_of_eq_None_iff)
  ultimately have "map_of (results_streams loc) sid =
         (case map_of terms sid of
            Some ev' \<Rightarrow> (case joins ev' sid of Joined (Inr stats) \<Rightarrow> Some stats | _ \<Rightarrow> None)
          | None \<Rightarrow> if sid < length conns \<and> in_time ev3 sid
                     then (case joins ev3 sid of Joined (Inr stats) \<Rightarrow> Some stats | _ \<Rightarrow> None)
                     else None)" for sid
    unfolding loc
    by (simp add: map_of_collect map_of_gather [OF assms(3)] split: option.split join_outcome.split sum.split)
  then show ?thesis using run by blast
qed

theorem client_session_completes_witness:
  "\<exists>c' loc. run_controller (sample_env sample_stats test_results_default)
      (fresh_client ''h:7559'' ''k'' [] (sample_params ClientToServer 1))
      ((ServerSays (Inr (SetState (CreateStreams ''k''))),
          (sample_env sample_stats test_results_default)\<lparr>dials :=
             [\<lparr>dial_connect = Inr 30, dial_hello = Inr (), dial_reply = \<lambda>m. Inr Welcome\<rparr>]\<rparr>)
       # (ServerSays (Inr (SetState Running)), sample_env sample_stats test_results_default)
       # term_events []
       @ [(ServerSays (Inr (SetState ExchangeResults)), sample_env sample_stats test_results_default)])
      = Finished c'
    \<and> control_sent (test c') = [] @ [ToServer (ClientSendResults loc)]
    \<and> map_of (results_streams loc) 0 = Some sample_stats"
proof -
  let ?e = "sample_env sample_stats test_results_default"
  let ?e1 = "?e\<lparr>dials := [\<lparr>dial_connect = Inr 30, dial_hello = Inr (), dial_reply = \<lambda>m. Inr Welcome\<rparr>]\<rparr>"
  let ?c = "fresh_client ''h:7559'' ''k'' [] (sample_params ClientToServer 1)"
  have "map (connect_data_stream (test ?c)) (dials ?e1) = map Inr [30]"
    by (simp add: fresh_client_def controller_new_def connect_data_stream_def)
  moreover have "length [30 :: nat] = total_needed_streams (test ?c)"
    by (simp add: fresh_client_def controller_new_def total_needed_streams_new sample_params_def)
  moreover have "from_server ?e = Inr (ServerSendResults test_results_default)"
    by (simp add: sample_env_def)
  ultimately obtain c' loc where
      "run_controller ?e ?c
        ((ServerSays (Inr (SetState (CreateStreams ''k''))), ?e1) # (ServerSays (Inr (SetState Running)), ?e)
         # term_events [] @ [(ServerSays (Inr (SetState ExchangeResults)), ?e)]) = Finished c'"
      "control_sent (test c') = [] @ [ToServer (ClientSendResults loc)]"
      "\<forall>sid. map_of (results_streams loc) sid =
         (case map_of [] sid of
            Some ev' \<Rightarrow> (case joins ev' sid of Joined (Inr stats) \<Rightarrow> Some stats | _ \<Rightarrow> None)
          | None \<Rightarrow> if sid < length [30 :: nat] \<and> in_time ?e sid
                     then (case joins ?e sid of Joined (Inr stats) \<Rightarrow> Some stats | _ \<Rightarrow> None)
                     else None)"
    using client_session_completes [of "''h:7559''" "''k''" "[]" "sample_params ClientToServer 1" ?e1
        "[30]" "[]" ?e test_results_default ?e "''k''" ?e] by auto
  then show ?thesis by (auto simp: sample_env_def)
qed

end
