(* ===== verification/Dialling.thy ===== *)
theory Dialling
  imports ClientSession
begin

text \<open>
  Termination of the loop in which a client opens its data streams (\<open>create_streams\<close>): it returns when it
  starts from a fresh table, and never after a stream has left the table while streams are created.
\<close>

section \<open>Steps of the loop\<close>

lemma connect_frame: "connect_data_stream (test (create_and_register_stream_worker s c)) d = connect_data_stream (test c) d"
  by (simp add: connect_data_stream_def register_eq)

lemma total_frame: "total_needed_streams (test (create_and_register_stream_worker s c)) = total_needed_streams (test c)"
  by (simp add: total_needed_streams_def register_eq)

lemma streams_register:
  "streams (test (create_and_register_stream_worker s c))
     = AList.update (length (streams (test c))) (fresh_ref (test c) (length (streams (test c))) s) (streams (test c))"
  by (simp add: register_eq)

lemma loop_step:
  assumes "length (streams (test c)) < total_needed_streams (test c)" "connect_data_stream (test c) d = Inr s"
  shows "create_streams_loop (d # ds) c = create_streams_loop ds (create_and_register_stream_worker s c)"
  using assms by (simp add: create_streams_loop.simps [of "d # ds" c])

lemma length_update_old: "k \<in> set (keys m) \<Longrightarrow> length (AList.update k v m) = length m"
  by (induction m) auto

text \<open>
  C36. Opening the streams ends: from a table with the ids \<open>0, 1, \<dots>\<close> in order, one connection, made or refused,
  for each stream that is missing is enough for the loop to return.
\<close>

theorem create_streams_terminates:
  assumes "keys (streams (test c)) = [0..<length (streams (test c))]"
    and "total_needed_streams (test c) \<le> length (streams (test c)) + length ds"
  shows "\<exists>r. create_streams ds c = Some r"
proof -
  have "\<exists>r. create_streams_loop ds c = Some r"
    using assms
  proof (induction ds arbitrary: c)
    case Nil
    then show ?case by (simp add: create_streams_loop.simps)
  next
    case (Cons d ds)
    show ?case
    proof (cases "length (streams (test c)) < total_needed_streams (test c)")
      case False
      then show ?thesis by (simp add: create_streams_loop.simps)
    next
      case True
      show ?thesis
      proof (cases "connect_data_stream (test c) d")
        case (Inl e)
        then show ?thesis using True by (simp add: create_streams_loop.simps)
      next
        case (Inr s)
        let ?c = "create_and_register_stream_worker s c"
        have "length (streams (test c)) \<notin> set (keys (streams (test c)))" unfolding Cons.prems(1) by simp
        then have st: "streams (test ?c) = streams (test c)
            @ [(length (streams (test c)), fresh_ref (test c) (length (streams (test c))) s)]"
          unfolding streams_register by (rule update_fresh)
        show ?thesis
          unfolding loop_step [OF True Inr]
        proof (rule Cons.IH)
          show "keys (streams (test ?c)) = [0..<length (streams (test ?c))]"
            unfolding st using Cons.prems(1) by simp
          show "total_needed_streams (test ?c) \<le> length (streams (test ?c)) + length ds"
            unfolding total_frame st using Cons.prems(2) by simp
        qed
      qed
    qed
  qed
  then show ?thesis by (auto simp: create_streams_def)
qed

text \<open>
  C37. It does not end after a stream has gone: the new id is the number of streams, so when an entry has that
  id already it is overwritten, the table does not grow, and the client opens connections for ever, however
  many succeed.
\<close>

theorem redial_never_ends:
  assumes "test_role (test c) = Client"
    and "length (streams (test c)) < total_needed_streams (test c)"
    and "length (streams (test c)) \<in> set (keys (streams (test c)))"
    and "\<And>d. d \<in> set ds \<Longrightarrow> \<exists>s. connect_data_stream (test c) d = Inr s"
  shows "create_streams ds c = None"
proof -
  have "create_streams_loop ds c = None"
    using assms(2-)
  proof (induction ds arbitrary: c)
    case Nil
    then show ?case by (simp add: create_streams_loop.simps)
  next
    case (Cons d ds)
    then obtain s where s: "connect_data_stream (test c) d = Inr s" by auto
    let ?c = "create_and_register_stream_worker s c"
    have len: "length (streams (test ?c)) = length (streams (test c))"
      unfolding streams_register by (rule length_update_old) (rule Cons.prems(2))
    have "create_streams_loop ds ?c = None"
    proof (rule Cons.IH)
      show "length (streams (test ?c)) < total_needed_streams (test ?c)"
        unfolding len total_frame by (rule Cons.prems(1))
      show "length (streams (test ?c)) \<in> set (keys (streams (test ?c)))"
        unfolding len unfolding streams_register by (simp add: dom_update)
      show "\<exists>s. connect_data_stream (test ?c) d' = Inr s" if "d' \<in> set ds" for d'
        unfolding connect_frame using Cons.prems(3) that by simp
    qed
    then show ?case unfolding loop_step [OF Cons.prems(1) s] .
  qed
  then show ?thesis using assms(1) by (simp add: create_streams_def)
qed

definition sample_dial :: dial where
  "sample_dial = \<lparr>dial_connect = Inr 30, dial_hello = Inr (), dial_reply = \<lambda>m. Inr Welcome\<rparr>"

theorem create_streams_terminates_witness:
  "\<exists>r. create_streams [sample_dial, sample_dial] (fresh_client ''h'' ''k'' [] (sample_params ClientToServer 2)) = Some r"
  by (rule create_streams_terminates)
    (simp_all add: fresh_client_def controller_new_def total_needed_streams_new sample_params_def)

text \<open>Two streams were open and the first has ended.\<close>

definition sample_gone :: controller where
  "sample_gone = snd (process_internal_message (\<lambda>sid. Joined (Inl NoStartSignal)) (Some (StreamTerminated 0))
     (snd (the (create_streams [sample_dial, sample_dial]
        (fresh_client ''h'' ''k'' [] (sample_params ClientToServer 2))))))"

lemma sample_gone_table:
  "test_role (test sample_gone) = Client" "total_needed_streams (test sample_gone) = 2"
  "keys (streams (test sample_gone)) = [1]" "length (streams (test sample_gone)) = 1"
  "client_address (test sample_gone) = Some ''h''"
  by code_simp+

theorem redial_never_ends_witness:
  "create_streams [sample_dial, sample_dial, sample_dial] sample_gone = None"
proof (rule redial_never_ends)
  show "\<exists>s. connect_data_stream (test sample_gone) d = Inr s" if "d \<in> set [sample_dial, sample_dial, sample_dial]" for d
    using that by (auto simp: connect_data_stream_def sample_gone_table sample_dial_def)
qed (simp_all only: sample_gone_table, simp_all)

end
