(* ===== verification/Framing.thy ===== *)
theory Framing
  imports Protocol
begin

text \<open>
  \<open>common/net_utils.rs\<close>: length-prefixed frames on the control socket. The JSON encoder and
  decoder (\<open>serde_json\<close>) are the arguments \<open>ser\<close> and \<open>de\<close>; the stream operations are the
  arguments \<open>wr\<close>, \<open>rd_u32\<close> and \<open>rd_buf\<close>.
\<close>

section \<open>Sending\<close>

definition send_control_message ::
    "('m \<Rightarrow> byte list option) \<Rightarrow> (byte list \<Rightarrow> 's \<Rightarrow> (io_error + unit) \<times> 's) \<Rightarrow> 's \<Rightarrow> 'm
      \<Rightarrow> (any_error + unit) \<times> 's" where
  "send_control_message ser wr stream message =
     (case ser message of
        None \<Rightarrow> (Inl JsonErr, stream)
      | Some payload \<Rightarrow>
          (if length payload \<le> 2 ^ 32 - 1 then
             (let buf = u32_be (of_nat (length payload)) @ payload
              in case wr buf stream of
                   (Inl e, stream') \<Rightarrow> (Inl (IoErr e), stream')
                 | (Inr _, stream') \<Rightarrow> (Inr (), stream'))
           else (Inl Panicked, stream)))"

definition client_send_message where
  "client_send_message ser wr stream message =
     send_control_message ser wr stream (ClientMessage message)"

definition client_send_error where
  "client_send_error ser wr stream e = send_control_message ser wr stream (ClientEnvelopeError e)"

definition server_send_message where
  "server_send_message ser wr stream message =
     send_control_message ser wr stream (ServerMessage message)"

definition server_send_error where
  "server_send_error ser wr stream e = send_control_message ser wr stream (ServerEnvelopeError e)"

section \<open>Receiving\<close>

text \<open>
  The read loop: each read is limited to the bytes of this frame that are still missing, and a
  read of no bytes ends the connection. The loop ends because every other read makes progress.
\<close>

function read_remaining ::
    "(nat \<Rightarrow> 's \<Rightarrow> (io_error + byte list) \<times> 's) \<Rightarrow> nat \<Rightarrow> byte list \<Rightarrow> 's
      \<Rightarrow> (any_error + byte list) \<times> 's" where
  "read_remaining rd_buf remaining_bytes buf stream =
     (if 0 < remaining_bytes then
        (case rd_buf remaining_bytes stream of
           (Inl e, stream') \<Rightarrow> (Inl (IoErr e), stream')
         | (Inr bs, stream') \<Rightarrow>
             (if length bs = 0 then (Inl ClosedByPeer, stream')
              else read_remaining rd_buf (remaining_bytes - length bs) (buf @ bs) stream'))
      else (Inr buf, stream))"
  by pat_completeness auto
termination
  by (relation "measure (\<lambda>(rd_buf, remaining_bytes, buf, stream). remaining_bytes)") auto

declare read_remaining.simps [simp del]

definition read_control_message ::
    "(byte list \<Rightarrow> 'm option) \<Rightarrow> ('s \<Rightarrow> (io_error + u32) \<times> 's)
      \<Rightarrow> (nat \<Rightarrow> 's \<Rightarrow> (io_error + byte list) \<times> 's) \<Rightarrow> 's \<Rightarrow> (any_error + 'm) \<times> 's" where
  "read_control_message de rd_u32 rd_buf stream =
     (case rd_u32 stream of
        (Inl e, stream') \<Rightarrow> (Inl (IoErr e), stream')
      | (Inr message_size, stream') \<Rightarrow>
          (if message_size > MAX_CONTROL_MESSAGE then
             (Inl (UnusuallyLarge (message_size div 1024) MAX_CONTROL_MESSAGE), stream')
           else
             (case read_remaining rd_buf (unat message_size) [] stream' of
                (Inl e, stream'') \<Rightarrow> (Inl e, stream'')
              | (Inr buf, stream'') \<Rightarrow>
                  (if unat message_size = length buf then
                     (with_context ''Invalid protocol, could not deserialise JSON''
                        (case de buf of None \<Rightarrow> Inl JsonErr | Some obj \<Rightarrow> Inr obj), stream'')
                   else (Inl Panicked, stream'')))))"

definition server_read_message ::
    "(byte list \<Rightarrow> client_envelope option) \<Rightarrow> ('s \<Rightarrow> (io_error + u32) \<times> 's)
      \<Rightarrow> (nat \<Rightarrow> 's \<Rightarrow> (io_error + byte list) \<times> 's) \<Rightarrow> 's \<Rightarrow> (any_error + client_message) \<times> 's" where
  "server_read_message de rd_u32 rd_buf stream =
     (case read_control_message de rd_u32 rd_buf stream of
        (Inl e, stream') \<Rightarrow> (Inl e, stream')
      | (Inr (ClientMessage m), stream') \<Rightarrow> (Inr m, stream')
      | (Inr (ClientEnvelopeError e), stream') \<Rightarrow> (Inl (ClientErr e), stream'))"

definition client_read_message ::
    "(byte list \<Rightarrow> server_envelope option) \<Rightarrow> ('s \<Rightarrow> (io_error + u32) \<times> 's)
      \<Rightarrow> (nat \<Rightarrow> 's \<Rightarrow> (io_error + byte list) \<times> 's) \<Rightarrow> 's \<Rightarrow> (any_error + server_message) \<times> 's" where
  "client_read_message de rd_u32 rd_buf stream =
     (case read_control_message de rd_u32 rd_buf stream of
        (Inl e, stream') \<Rightarrow> (Inl e, stream')
      | (Inr (ServerMessage m), stream') \<Rightarrow> (Inr m, stream')
      | (Inr (ServerEnvelopeError e), stream') \<Rightarrow> (Inl (ServerErr e), stream'))"

section \<open>Specification: a frame at the head of a byte string\<close>

text \<open>
  What a receiver should see of a byte string that ends with the stream: the message at its head
  and the bytes after it, or nothing when the head is no valid frame.
\<close>

definition frame :: "byte list \<Rightarrow> byte list" where
  "frame payload = u32_be (of_nat (length payload)) @ payload"

definition decode_frame :: "(byte list \<Rightarrow> 'm option) \<Rightarrow> byte list \<Rightarrow> ('m \<times> byte list) option" where
  "decode_frame de bs =
     (if length bs < 4 then None
      else let n = unat (be_u32 (take 4 bs)); rest = drop 4 bs
           in if 20971520 < n \<or> length rest < n then None
              else (case de (take n rest) of None \<Rightarrow> None | Some m \<Rightarrow> Some (m, drop n rest)))"

lemma decode_frame_frame:
  assumes "length payload \<le> 20971520" "de payload = Some m"
  shows "decode_frame de (frame payload @ rest) = Some (m, rest)"
proof -
  have "unat (of_nat (length payload) :: u32) = length payload"
    using assms(1) by (simp add: unat_of_nat)
  then show ?thesis
    using assms by (simp add: decode_frame_def frame_def Let_def)
qed

section \<open>The contract of the helpers over any stream\<close>

context byte_source
begin

lemma read_remaining_enough:
  "healthy s \<Longrightarrow> n \<le> length (contents s) \<Longrightarrow>
     \<exists>s'. read_remaining rd_buf n buf s = (Inr (buf @ take n (contents s)), s') \<and> healthy s'
       \<and> contents s' = drop n (contents s)"
proof (induction n arbitrary: buf s rule: less_induct)
  case (less n)
  show ?case
  proof (cases "n = 0")
    case True
    then show ?thesis using less.prems by (auto simp: read_remaining.simps [of rd_buf 0])
  next
    case False
    then obtain bs s' where r: "rd_buf n s = (Inr bs, s')" "healthy s'" "length bs \<le> n"
        "contents s = bs @ contents s'" "bs = [] \<longrightarrow> contents s = []"
      using rd_buf_law [of s n] less.prems by auto
    have "bs \<noteq> []" using r less.prems False by auto
    then have "n - length bs < n" "n - length bs \<le> length (contents s')"
      using False r less.prems by auto
    from less.IH [OF this(1) r(2) this(2), of "buf @ bs"] show ?thesis
      using False r \<open>bs \<noteq> []\<close> by (auto simp: read_remaining.simps [of rd_buf n])
  qed
qed

lemma read_remaining_short:
  "healthy s \<Longrightarrow> length (contents s) < n \<Longrightarrow>
     \<exists>s'. read_remaining rd_buf n buf s = (Inl ClosedByPeer, s')"
proof (induction n arbitrary: buf s rule: less_induct)
  case (less n)
  then obtain bs s' where r: "rd_buf n s = (Inr bs, s')" "healthy s'" "length bs \<le> n"
      "contents s = bs @ contents s'" "bs = [] \<longrightarrow> contents s = []"
    using rd_buf_law [of s n] by auto
  show ?case
  proof (cases "bs = []")
    case True
    then show ?thesis using less.prems r by (auto simp: read_remaining.simps [of rd_buf n])
  next
    case False
    then have "n - length bs < n" "length (contents s') < n - length bs"
      using r less.prems by auto
    from less.IH [OF this(1) r(2) this(2), of "buf @ bs"] show ?thesis
      using False r less.prems by (auto simp: read_remaining.simps [of rd_buf n])
  qed
qed

lemma read_control_message_refines:
  assumes "healthy s"
  shows "case read_control_message de rd_u32 rd_buf s of
           (Inr m, s') \<Rightarrow> decode_frame de (contents s) = Some (m, contents s') \<and> healthy s'
         | (Inl e, s') \<Rightarrow> decode_frame de (contents s) = None \<and> e \<noteq> Panicked"
proof (cases "length (contents s) < 4")
  case True
  then show ?thesis using rd_u32_eof [OF assms True]
    by (auto simp: read_control_message_def decode_frame_def)
next
  case False
  then obtain s' where s': "rd_u32 s = (Inr (be_u32 (take 4 (contents s))), s')" "healthy s'"
      "contents s' = drop 4 (contents s)"
    using rd_u32_law [OF assms] by auto
  let ?n = "be_u32 (take 4 (contents s))"
  show ?thesis
  proof (cases "?n > MAX_CONTROL_MESSAGE")
    case True
    then show ?thesis using False s'
      by (simp add: read_control_message_def decode_frame_def word_less_nat_alt Let_def)
  next
    case small: False
    show ?thesis
    proof (cases "unat ?n \<le> length (contents s')")
      case True
      from read_remaining_enough [OF s'(2) True, of "[]"] show ?thesis
        using False small s' True
        by (auto simp: read_control_message_def decode_frame_def word_less_nat_alt Let_def
            with_context_def split: option.splits)
    next
      case short: False
      then obtain s'' where "read_remaining rd_buf (unat ?n) [] s' = (Inl ClosedByPeer, s'')"
        using read_remaining_short [OF s'(2), of "unat ?n" "[]"] by auto
      then show ?thesis
        using False small s' short
        by (simp add: read_control_message_def decode_frame_def word_less_nat_alt Let_def)
    qed
  qed
qed

lemma read_frame:
  assumes "healthy s" "contents s = frame payload @ rest" "length payload \<le> 20971520"
    "de payload = Some m"
  shows "\<exists>s'. read_control_message de rd_u32 rd_buf s = (Inr m, s') \<and> healthy s' \<and> contents s' = rest"
  using read_control_message_refines [OF assms(1), of de] decode_frame_frame [of payload de m rest]
    assms by (auto split: prod.splits sum.splits)

end

context byte_sink
begin

lemma send_control_message_frame:
  assumes "writable s" "ser m = Some payload" "length payload \<le> 20971520"
  shows "\<exists>s'. send_control_message ser wr_all s m = (Inr (), s') \<and> writable s'
    \<and> sent s' = sent s @ frame payload"
  using wr_all_law [OF assms(1), of "frame payload"] assms
  by (auto simp: send_control_message_def frame_def Let_def)

end

section \<open>Properties\<close>

text \<open>
  C10. Reading a control message from a socket refines the decoding of the bytes on it, however
  TCP cuts them into pieces: a returned message is the one the frame at the head encodes, and
  exactly the bytes after that frame are left for the next read; an error is returned exactly when
  there is no valid frame; the assertion on the buffer length never fails.
\<close>

theorem read_control_message_socket:
  assumes "pieces_healthy s"
  shows "case read_control_message de pieces_u32 pieces_read s of
           (Inr m, s') \<Rightarrow> decode_frame de (pieces_contents s) = Some (m, pieces_contents s')
             \<and> pieces_healthy s'
         | (Inl e, s') \<Rightarrow> decode_frame de (pieces_contents s) = None \<and> e \<noteq> Panicked"
  by (rule socket.read_control_message_refines [OF assms])

theorem read_control_message_socket_witness:
  "decode_frame (\<lambda>bs. if bs = [7, 8] then Some True else None) [0, 0, 0, 2, 7, 8, 9] = Some (True, [9])"
proof -
  have "pieces_healthy [Data [0, 0], Data [0], Data [2, 7], Data [8, 9]]"
    by (simp add: pieces_healthy_def)
  from read_control_message_socket [OF this, of "\<lambda>bs. if bs = [7, 8] then Some True else None"]
  show ?thesis by (simp add: decode_frame_def be_u32_def Let_def)
qed

text \<open>
  C9. Round trip: a message sent on a working connection is the message the peer reads, for every
  way its bytes and the ones that follow arrive, and the bytes that follow are left untouched. The
  hypothesis on JSON is that decoding inverts encoding on this message; the bound is the largest
  message a receiver accepts.
\<close>

theorem control_message_roundtrip:
  assumes "ser m = Some payload" "de payload = Some m" "length payload \<le> 20971520"
    and "\<not> tx_broken t" "send_control_message ser tx_write t m = (r, t')"
    and "pieces_healthy s" "tx_sent t @ pieces_contents s = tx_sent t' @ rest"
  shows "r = Inr () \<and> \<not> tx_broken t' \<and>
    (\<exists>s'. read_control_message de pieces_u32 pieces_read s = (Inr m, s') \<and> pieces_healthy s'
       \<and> pieces_contents s' = rest)"
proof -
  obtain t'' where t'': "send_control_message ser tx_write t m = (Inr (), t'')" "\<not> tx_broken t''"
      "tx_sent t'' = tx_sent t @ frame payload"
    using tx.send_control_message_frame [of t ser m payload] assms by auto
  then have "pieces_contents s = frame payload @ rest"
    using assms by simp
  with t'' show ?thesis
    using socket.read_frame [of s payload rest de m] assms by simp
qed

theorem control_message_roundtrip_witness:
  "\<exists>s'. read_control_message (\<lambda>bs. if bs = [7, 8] then Some True else None) pieces_u32 pieces_read
      [Data [0, 0], Data [0, 2], Data [7], Data [8, 9]] = (Inr True, s') \<and> pieces_healthy s'
      \<and> pieces_contents s' = [9]"
proof -
  define ser where "ser = (\<lambda>b :: bool. Some [7, 8 :: byte])"
  define t where "t = \<lparr>tx_sent = [1], tx_broken = False\<rparr>"
  have "send_control_message ser tx_write t True = (Inr (), \<lparr>tx_sent = [1, 0, 0, 0, 2, 7, 8], tx_broken = False\<rparr>)"
    by (simp add: ser_def t_def send_control_message_def tx_write_def u32_be_def)
  from control_message_roundtrip [OF _ _ _ _ this, where payload = "[7, 8]" and rest = "[9]"
      and de = "\<lambda>bs. if bs = [7, 8] then Some True else None"
      and s = "[Data [0, 0], Data [0, 2], Data [7], Data [8, 9]]"]
  show ?thesis by (simp add: ser_def t_def pieces_healthy_def)
qed

text \<open>
  C32. An error the server sends arrives as an error of the client's read, from which
  \<open>to_server_error\<close> recovers the typed value; it is never taken for a message, nor for a client
  error.
\<close>

theorem server_error_reaches_client:
  assumes "ser (ServerEnvelopeError err) = Some payload"
    and "de payload = Some (ServerEnvelopeError err)" "length payload \<le> 20971520"
    and "\<not> tx_broken t" "server_send_error ser tx_write t err = (r, t')"
    and "pieces_healthy s" "tx_sent t @ pieces_contents s = tx_sent t' @ rest"
  shows "to_server_error (fst (client_read_message de pieces_u32 pieces_read s)) = Some err
    \<and> to_client_error (fst (client_read_message de pieces_u32 pieces_read s)) = None
    \<and> (\<exists>e. fst (client_read_message de pieces_u32 pieces_read s) = Inl e)"
proof -
  obtain t'' where t'': "send_control_message ser tx_write t (ServerEnvelopeError err) = (Inr (), t'')"
      "\<not> tx_broken t''" "tx_sent t'' = tx_sent t @ frame payload"
    using tx.send_control_message_frame [of t ser "ServerEnvelopeError err" payload] assms by auto
  then have "pieces_contents s = frame payload @ rest"
    using assms by (simp add: server_send_error_def)
  then obtain s' where "read_control_message de pieces_u32 pieces_read s
      = (Inr (ServerEnvelopeError err), s')"
    using socket.read_frame [of s payload rest de] assms by blast
  then show ?thesis
    by (simp add: client_read_message_def to_server_error_def to_client_error_def)
qed

theorem server_error_reaches_client_witness:
  "to_server_error (fst (client_read_message
      (\<lambda>bs. if bs = [7] then Some (ServerEnvelopeError (AccessDenied ''busy'')) else None)
      pieces_u32 pieces_read [Data [0, 0], Data [0, 1, 7]])) = Some (AccessDenied ''busy'')"
proof -
  define ser where "ser = (\<lambda>e :: server_envelope. Some [7 :: byte])"
  define t where "t = \<lparr>tx_sent = [], tx_broken = False\<rparr>"
  have "server_send_error ser tx_write t (AccessDenied ''busy'')
      = (Inr (), \<lparr>tx_sent = [0, 0, 0, 1, 7], tx_broken = False\<rparr>)"
    by (simp add: ser_def t_def server_send_error_def send_control_message_def tx_write_def u32_be_def)
  from server_error_reaches_client [OF _ _ _ _ this, where payload = "[7]" and rest = "[]"
      and s = "[Data [0, 0], Data [0, 1, 7]]"
      and de = "\<lambda>bs. if bs = [7] then Some (ServerEnvelopeError (AccessDenied ''busy'')) else None"]
  show ?thesis by (simp add: ser_def t_def pieces_healthy_def)
qed

text \<open>
  A header above 20 MB is refused as soon as it is read: no byte of the payload is consumed.
\<close>

theorem oversized_header_refused:
  assumes "pieces_healthy s" "pieces_contents s = u32_be n @ rest" "20971520 < unat n"
  shows "\<exists>s'. read_control_message de pieces_u32 pieces_read s
      = (Inl (UnusuallyLarge (n div 1024) 20971520), s') \<and> pieces_contents s' = rest"
  using socket.rd_u32_law [OF assms(1)] assms(2,3)
  by (auto simp: read_control_message_def word_less_nat_alt)

theorem oversized_header_refused_witness:
  "\<exists>s'. read_control_message (\<lambda>bs. None :: unit option) pieces_u32 pieces_read [Data [255, 0], Data [0, 0, 1]]
      = (Inl (UnusuallyLarge (0xFF000000 div 1024) 20971520), s') \<and> pieces_contents s' = [1]"
  by (rule oversized_header_refused) (simp_all add: pieces_healthy_def u32_be_def)

end
