(* ===== verification/Select.thy ===== *)
theory Select
  imports ClientSession Framing
begin

text \<open>
  The wait of a client (\<open>select!\<close> in \<open>controller.rs\<close>) at the level of bytes: a read of the control socket that
  races with the channel to the controller and is dropped when the channel wins. What the dropped
  future has already taken off the socket is gone.
\<close>

section \<open>A read that is polled\<close>

text \<open>
  What a pending \<open>read_control_message\<close> makes of the bytes it has been given since it started: nothing yet,
  or a result and the bytes it leaves on the socket.
\<close>

definition poll_read :: "(byte list \<Rightarrow> 'm option) \<Rightarrow> byte list \<Rightarrow> ((any_error + 'm) \<times> byte list) option" where
  "poll_read de bs =
     (if length bs < 4 then None
      else let message_size = be_u32 (take 4 bs); rest = drop 4 bs
           in if message_size > MAX_CONTROL_MESSAGE
              then Some (Inl (UnusuallyLarge (message_size div 1024) MAX_CONTROL_MESSAGE), rest)
              else if length rest < unat message_size then None
              else Some (with_context ''Invalid protocol, could not deserialise JSON''
                     (case de (take (unat message_size) rest) of None \<Rightarrow> Inl JsonErr | Some obj \<Rightarrow> Inr obj),
                   drop (unat message_size) rest))"

definition message_of :: "any_error + server_envelope \<Rightarrow> any_error + server_message" where
  "message_of r =
     (case r of
        Inl e \<Rightarrow> Inl e
      | Inr (ServerMessage m) \<Rightarrow> Inr m
      | Inr (ServerEnvelopeError e) \<Rightarrow> Inl (ServerErr e))"

section \<open>The wait\<close>

text \<open>
  One poll of the \<open>select!\<close>: the bytes that have come in since the last one, what the channel has ready, and
  whether it is polled before the read (the order is random). The result is the event of the branch
  that completes and what is left on the socket; \<open>held\<close> is what the read has taken.
\<close>

record select_poll =
  arrived :: "byte list"
  channel_ready :: "controller_message option option"
  channel_first :: bool

fun select_wait ::
    "(byte list \<Rightarrow> server_envelope option) \<Rightarrow> select_poll list \<Rightarrow> byte list \<Rightarrow> (event \<times> byte list) option" where
  "select_wait de [] held = None"
| "select_wait de (po # pos) held =
     (let bs = held @ arrived po
      in case (channel_first po, channel_ready po, poll_read de bs) of
           (True, Some m, _) \<Rightarrow> Some (Internal m, arrived po)
         | (_, _, Some (r, rest)) \<Rightarrow> Some (ServerSays (message_of r), rest)
         | (_, Some m, None) \<Rightarrow> Some (Internal m, [])
         | (_, None, None) \<Rightarrow> select_wait de pos bs)"

text \<open>The bytes a read has taken when the wait ends, and whether they are the start of an unfinished frame.\<close>

fun received_by :: "(byte list \<Rightarrow> server_envelope option) \<Rightarrow> select_poll list \<Rightarrow> byte list \<Rightarrow> byte list" where
  "received_by de [] held = held"
| "received_by de (po # pos) held =
     (if channel_ready po = None \<and> poll_read de (held @ arrived po) = None
      then received_by de pos (held @ arrived po) else held @ arrived po)"

section \<open>Polled reads and reads\<close>

context byte_source
begin

text \<open>A polled read that completes is \<open>read_control_message\<close> on any stream with these bytes ahead.\<close>

lemma read_control_message_poll:
  assumes "healthy s" "contents s = bs @ ahead" "poll_read de bs = Some (r, rest)"
  shows "\<exists>s'. read_control_message de rd_u32 rd_buf s = (r, s') \<and> contents s' = rest @ ahead"
proof -
  let ?n = "be_u32 (take 4 bs)"
  have len: "4 \<le> length bs" using assms(3) by (auto simp: poll_read_def split: if_splits)
  then have t: "take 4 (contents s) = take 4 bs" "drop 4 (contents s) = drop 4 bs @ ahead" using assms(2) by simp_all
  obtain s1 where s1: "rd_u32 s = (Inr ?n, s1)" "healthy s1" "contents s1 = drop 4 bs @ ahead"
    using rd_u32_law [OF assms(1)] t len assms(2) by auto
  show ?thesis
  proof (cases "?n > MAX_CONTROL_MESSAGE")
    case True
    then show ?thesis using s1 assms(3) len by (auto simp: read_control_message_def poll_read_def Let_def)
  next
    case False
    then have n: "unat ?n \<le> length (drop 4 bs)"
      using assms(3) len by (auto simp: poll_read_def Let_def split: if_splits)
    then obtain s2 where "read_remaining rd_buf (unat ?n) [] s1 = (Inr (take (unat ?n) (drop 4 bs)), s2)"
        "contents s2 = drop (unat ?n) (drop 4 bs) @ ahead"
      using read_remaining_enough [OF s1(2), of "unat ?n" "[]"] s1(3) by auto
    then show ?thesis
      using s1(1) False n assms(3) len
      by (auto simp: read_control_message_def poll_read_def Let_def)
  qed
qed

end

lemma client_read_message_poll:
  assumes "pieces_healthy s" "pieces_contents s = bs @ ahead" "poll_read de bs = Some (r, rest)"
  shows "fst (client_read_message de pieces_u32 pieces_read s) = message_of r
    \<and> pieces_contents (snd (client_read_message de pieces_u32 pieces_read s)) = rest @ ahead"
  using socket.read_control_message_poll [OF assms]
  by (auto simp: client_read_message_def message_of_def split: sum.splits server_envelope.splits)

section \<open>Bytes that are kept and bytes that are lost\<close>

lemma poll_read_Nil [simp]: "poll_read de [] = None"
  by (simp add: poll_read_def)

lemma select_wait_says:
  "select_wait de pos held = Some (ServerSays m, rest) \<Longrightarrow>
     \<exists>r. poll_read de (received_by de pos held) = Some (r, rest) \<and> m = message_of r"
  by (induction de pos held rule: select_wait.induct)
    (auto simp: Let_def split: option.splits bool.splits prod.splits)

lemma select_wait_internal:
  "select_wait de pos held = Some (Internal m, rest) \<Longrightarrow> poll_read de held = None \<Longrightarrow>
     \<exists>lost. received_by de pos held = lost @ rest \<and> poll_read de lost = None"
proof (induction de pos held rule: select_wait.induct)
  case (2 de po pos held)
  let ?bs = "held @ arrived po"
  show ?case
  proof (cases "channel_ready po = None \<and> poll_read de ?bs = None")
    case True
    then show ?thesis using "2.IH" "2.prems" by (auto simp: Let_def split: bool.splits)
  next
    case False
    then show ?thesis
      using "2.prems" by (auto simp: Let_def split: option.splits bool.splits)
  qed
qed simp

section \<open>Properties\<close>

lemma u32_be_be_u32: "u32_be (be_u32 [x, a, b, d]) = [x, a, b, d]"
  unfolding u32_be_def be_u32_def
  by simp (intro conjI bit_word_eqI; auto simp: bit_simps dest: bit_imp_le_length)

lemma be_u32_high: "123 * 2 ^ 24 \<le> unat (be_u32 [0x7B, a, b, d])"
proof -
  let ?w = "be_u32 [0x7B, a, b, d]"
  have "ucast (drop_bit 24 ?w) = (0x7B :: byte)"
    using u32_be_be_u32 [of "0x7B" a b d] by (simp add: u32_be_def)
  then have "unat (ucast (drop_bit 24 ?w) :: byte) = 123" by simp
  then have "unat ?w div 2 ^ 24 mod 2 ^ 8 = 123"
    by (simp only: unsigned_ucast_eq take_bit_eq_mod unat_drop_bit_eq drop_bit_eq_div)
      (simp add: unat_div)
  then show ?thesis by simp
qed

text \<open>
  C7. What the wait of a client does with the bytes of its control connection. When the read wins, it is a
  read of those bytes: the message is the one \<open>client_read_message\<close> returns on every socket that has them
  ahead, and the bytes after the frame are left. When the channel wins, everything is left except the
  beginning of an unfinished frame, and that is lost.
\<close>

theorem select_keeps_frames:
  assumes "select_wait de pos [] = Some (e, rest)"
  shows "case e of
      ServerSays m \<Rightarrow> \<forall>s ahead. pieces_healthy s \<and> pieces_contents s = received_by de pos [] @ ahead \<longrightarrow>
        fst (client_read_message de pieces_u32 pieces_read s) = m
        \<and> pieces_contents (snd (client_read_message de pieces_u32 pieces_read s)) = rest @ ahead
    | Internal m \<Rightarrow> \<exists>lost. received_by de pos [] = lost @ rest \<and> poll_read de lost = None"
proof (cases e)
  case (Internal m)
  then show ?thesis using select_wait_internal [of de pos "[]" m rest] assms by simp
next
  case (ServerSays m)
  then show ?thesis
    using select_wait_says [of de pos "[]" m rest] assms client_read_message_poll by fastforce
qed

theorem select_keeps_frames_witness:
  "fst (client_read_message (\<lambda>bs. if bs = [7] then Some (ServerMessage Welcome) else None) pieces_u32 pieces_read
      [Data [0, 0, 0], Data [1, 7, 9]]) = Inr Welcome"
proof -
  let ?de = "\<lambda>bs :: byte list. if bs = [7] then Some (ServerMessage Welcome) else None"
  let ?polls = "[\<lparr>arrived = [0, 0], channel_ready = None, channel_first = True\<rparr>,
      \<lparr>arrived = [0, 1, 7, 9], channel_ready = Some (Some (StreamTerminated 0)), channel_first = False\<rparr>]"
  have "select_wait ?de ?polls [] = Some (ServerSays (Inr Welcome), [9])"
      "received_by ?de ?polls [] = [0, 0, 0, 1, 7, 9]"
    by (simp_all add: poll_read_def be_u32_def message_of_def with_context_def Let_def)
  from select_keeps_frames [OF this(1)] this(2) show ?thesis by (simp add: pieces_healthy_def)
qed

text \<open>
  The loss is fatal. The header of a frame has come in and has been taken when a stream ends and the
  channel wins; the next wait then takes the text of the message, which starts with a brace as
  every JSON object does, for a header, finds it too large, and the controller fails.
\<close>

theorem lost_header_fails_client:
  assumes "payload = 0x7B # body" "3 \<le> length body" "length payload \<le> 20971520"
    and "\<not> channel_first second" "arrived second = []" "channel_ready second = Some m"
    and "channel_ready first = None" "arrived first @ payload = frame payload"
    and "channel_ready third = None" "arrived third = payload @ ahead" "test_role (test c) = Client"
  shows "select_wait de [first, second] [] = Some (Internal m, [])
    \<and> (\<exists>r n. select_wait de (third # pos) [] = Some (ServerSays r, drop 4 payload @ ahead)
         \<and> process_event ev (ServerSays r) c = (Inl (Context ''Server terminated!'' (UnusuallyLarge n 20971520)), c))"
proof -
  obtain a b d ds where body: "body = a # b # d # ds"
    using assms(2) by (auto simp: eval_nat_numeral Suc_le_length_iff)
  have n: "unat (of_nat (length payload) :: u32) = length payload"
    using assms(3) by (simp add: unat_of_nat)
  have "length payload \<noteq> 0" using assms(1) by simp
  have first: "arrived first = u32_be (of_nat (length payload))"
    using assms(8) by (simp add: frame_def)
  have "poll_read de (arrived first) = None"
    using n \<open>length payload \<noteq> 0\<close> assms(3) by (simp add: first poll_read_def Let_def word_less_nat_alt)
  then have lost: "select_wait de [first, second] [] = Some (Internal m, [])"
    using assms(4-7) by (cases "channel_first first") (simp_all add: Let_def)
  have "\<not> be_u32 (take 4 (payload @ ahead)) \<le> MAX_CONTROL_MESSAGE"
    using be_u32_high [of a b d] by (simp add: assms(1) body word_le_nat_alt)
  then have "poll_read de (payload @ ahead) = Some (Inl (UnusuallyLarge (be_u32 (take 4 payload) div 1024) 20971520), drop 4 payload @ ahead)"
    by (simp add: poll_read_def Let_def assms(1) body not_le)
  then have "select_wait de (third # pos) [] = Some (ServerSays (Inl (UnusuallyLarge (be_u32 (take 4 payload) div 1024) 20971520)), drop 4 payload @ ahead)"
    using assms(9,10) by (cases "channel_first third") (simp_all add: message_of_def)
  then show ?thesis
    using lost assms(11) by (auto simp: process_event_def process_server_message_def with_context_def)
qed

definition brace_payload :: "byte list" where
  "brace_payload = [0x7B, 0x22, 0x53, 0x22, 0x7D]"

theorem lost_header_fails_client_witness:
  "\<forall>ev. \<exists>r n. select_wait (\<lambda>bs. None) [\<lparr>arrived = brace_payload, channel_ready = None, channel_first = True\<rparr>] []
        = Some (ServerSays r, [0x7D])
    \<and> process_event ev (ServerSays r) (fresh_client ''h:7559'' ''k'' [] (sample_params ClientToServer 1))
        = (Inl (Context ''Server terminated!'' (UnusuallyLarge n 20971520)),
           fresh_client ''h:7559'' ''k'' [] (sample_params ClientToServer 1))"
proof
  fix ev
  let ?c = "fresh_client ''h:7559'' ''k'' [] (sample_params ClientToServer 1)"
  have "test_role (test ?c) = Client" by (simp add: fresh_client_def controller_new_def perf_test_new_def Let_def split: direction.split)
  with lost_header_fails_client [of brace_payload "[0x22, 0x53, 0x22, 0x7D]"
      "\<lparr>arrived = [], channel_ready = Some (Some (StreamTerminated 0)), channel_first = False\<rparr>"
      "Some (StreamTerminated 0)" "\<lparr>arrived = [0, 0, 0, 5], channel_ready = None, channel_first = False\<rparr>"
      "\<lparr>arrived = brace_payload, channel_ready = None, channel_first = True\<rparr>" "[]" ?c "\<lambda>bs. None" "[]" ev]
  show "\<exists>r n. select_wait (\<lambda>bs. None) [\<lparr>arrived = brace_payload, channel_ready = None, channel_first = True\<rparr>] []
        = Some (ServerSays r, [0x7D])
    \<and> process_event ev (ServerSays r) ?c = (Inl (Context ''Server terminated!'' (UnusuallyLarge n 20971520)), ?c)"
    by (simp add: brace_payload_def frame_def u32_be_def del: select_wait.simps)
qed

end
