(* ===== verification/Client.thy ===== *)
theory Client
  imports ClientSession Server
begin

text \<open>
  \<open>client.rs\<close>: the negotiation of a client before its controller starts, and
  the session of a client and a server that talk to each other.
\<close>

section \<open>Negotiation\<close>

text \<open>
  What the network answers: to the connect, to the write of the hello, to the read of the welcome and to
  the write of the parameters.
\<close>

record negotiation =
  neg_connect :: "io_error + unit"
  neg_hello :: "any_error + unit"
  neg_welcome :: "any_error + server_message"
  neg_params :: "any_error + unit"

record common_opts =
  port :: u16
  interval :: u16

text \<open>The controller the client spawns, or the error that ends it before.\<close>

definition start_client ::
    "common_opts \<Rightarrow> client_opts \<Rightarrow> string \<Rightarrow> negotiation \<Rightarrow> any_error + controller" where
  "start_client common opts uuid neg =
     (case opt_client opts of
        None \<Rightarrow> Inl Panicked
      | Some client_host \<Rightarrow>
          (let address = client_host @ '':'' @ decimal (unat (port common))
           in case neg_connect neg of
                Inl e \<Rightarrow> Inl (IoErr e)
              | Inr _ \<Rightarrow>
                  (case neg_hello neg of
                     Inl e \<Rightarrow> Inl e
                   | Inr _ \<Rightarrow>
                       (case neg_welcome neg of
                          Inl e \<Rightarrow> Inl e
                        | Inr _ \<Rightarrow>
                            (let ps = from_opts opts DEFAULT_BLOCK_SIZE
                             in case neg_params neg of
                                  Inl e \<Rightarrow> Inl e
                                | Inr _ \<Rightarrow>
                                    Inr (controller_new (perf_test_new (Some address) uuid
                                      ([ToServer (Hello uuid), ToServer (SendParameters ps)], False)
                                      Client ps)))))))"

text \<open>\<open>handle.await??\<close>: a panic of the controller task is an error too.\<close>

definition run_client ::
    "common_opts \<Rightarrow> client_opts \<Rightarrow> string \<Rightarrow> negotiation \<Rightarrow> env \<Rightarrow> (event \<times> env) list
      \<Rightarrow> (any_error + unit) option" where
  "run_client common opts uuid neg ev es =
     (case start_client common opts uuid neg of
        Inl e \<Rightarrow> Some (Inl e)
      | Inr c \<Rightarrow>
          (case run_controller ev c es of
             Finished c' \<Rightarrow> Some (Inr ())
           | Failed e c' \<Rightarrow> Some (Inl e)
           | _ \<Rightarrow> None))"

section \<open>Sessions\<close>

lemma start_client_fresh:
  assumes "opt_client opts = Some host" "neg_connect neg = Inr ()" "neg_hello neg = Inr ()"
    and "neg_welcome neg = Inr m" "neg_params neg = Inr ()"
  shows "start_client common opts uuid neg = Inr (fresh_client (host @ '':'' @ decimal (unat (port common)))
      uuid [ToServer (Hello uuid), ToServer (SendParameters (from_opts opts DEFAULT_BLOCK_SIZE))]
      (from_opts opts DEFAULT_BLOCK_SIZE))"
  using assms by (simp add: start_client_def fresh_client_def Let_def)

text \<open>The hello and the parameters a client writes, as its server reads them.\<close>

definition honest :: "tcp_stream \<Rightarrow> string \<Rightarrow> test_parameters \<Rightarrow> inbound" where
  "honest s uuid p = \<lparr>inb_stream = s, inb_first = Inr (Hello uuid), inb_welcome = Inr (),
     inb_params = Some (Inr (SendParameters p))\<rparr>"

lemma serve_honest:
  assumes "in_flight srv = None"
  shows "serve_connection (honest s uuid p) srv =
    (Inr (), (reply s (ServerMessage Welcome) srv)\<lparr>in_flight := Some (fresh_server uuid [ToClient Welcome] p, Spawned)\<rparr>)"
  using assms
  by (simp add: serve_connection_def honest_def create_test_def read_cookie_def read_test_parameters_def
      welcomed_def fresh_server_def Let_def)

text \<open>What an end of the session has sent on the control connection when it has finished.\<close>

definition sent_of :: "turn \<Rightarrow> wire_message list" where
  "sent_of r = (case r of Finished c \<Rightarrow> control_sent (test c) | _ \<Rightarrow> [])"

definition received :: "server_envelope \<Rightarrow> any_error + server_message" where
  "received e = (case e of ServerMessage m \<Rightarrow> Inr m | ServerEnvelopeError er \<Rightarrow> Inl (ServerErr er))"

text \<open>
  A client that meets a server with a test under way ends with the server's error: the refusal the
  accept loop writes is what its wait for the welcome returns, and it never sends its parameters.
\<close>

theorem busy_server_refuses_client:
  assumes "in_flight srv = Some (c, ph)" "\<And>ck. test_state (test c) \<noteq> CreateStreams ck"
    and "opt_client opts = Some host" "neg_connect neg = Inr ()" "neg_hello neg = Inr ()"
    and "neg_welcome neg = received (snd (last (replies (snd (serve_connection (honest s uuid p) srv)))))"
  shows "run_client common opts uuid neg ev es
      = Some (Inl (ServerErr (AccessDenied ''Test already in-flight'')))"
proof -
  have "serve_connection (honest s uuid p) srv = (Inr (), reply s already_in_flight srv)"
    using assms(1,2) by (auto simp: serve_connection_def honest_def split: state.splits)
  then have "neg_welcome neg = Inl (ServerErr (AccessDenied ''Test already in-flight''))"
    using assms(6) by (simp add: reply_def already_in_flight_def received_def)
  then show ?thesis
    using assms(3-5) by (simp add: run_client_def start_client_def Let_def)
qed

definition sample_opts :: client_opts where
  "sample_opts = \<lparr>opt_client = Some ''h'', opt_length = None, opt_socket_buffers = None, opt_time = 10,
     opt_parallel = 1, bidir = False, reverse = False, opt_latency = False\<rparr>"

definition sample_common :: common_opts where
  "sample_common = \<lparr>port = 7559, interval = 1\<rparr>"

definition sample_neg :: "any_error + server_message \<Rightarrow> negotiation" where
  "sample_neg w = \<lparr>neg_connect = Inr (), neg_hello = Inr (), neg_welcome = w, neg_params = Inr ()\<rparr>"

definition sample_results :: test_results where
  "sample_results = \<lparr>results_streams = [(0, sample_stats)]\<rparr>"

definition session_env :: env where
  "session_env = (sample_env sample_stats sample_results)\<lparr>dials :=
     [\<lparr>dial_connect = Inr 30, dial_hello = Inr (), dial_reply = \<lambda>m. Inr Welcome\<rparr>]\<rparr>"

theorem busy_server_refuses_client_witness:
  "run_client sample_common sample_opts ''u'' (sample_neg (received already_in_flight)) session_env []
    = Some (Inl (ServerErr (AccessDenied ''Test already in-flight'')))"
proof (rule busy_server_refuses_client)
  let ?c = "(fresh_server ''k'' [] (sample_params ClientToServer 1))\<lparr>test :=
    (test (fresh_server ''k'' [] (sample_params ClientToServer 1)))\<lparr>test_state := Running\<rparr>\<rparr>"
  let ?srv = "server_init\<lparr>in_flight := Some (?c, Waiting Running)\<rparr>"
  show "in_flight ?srv = Some (?c, Waiting Running)" by simp
  show "test_state (test ?c) \<noteq> CreateStreams ck" for ck by simp
  show "neg_welcome (sample_neg (received already_in_flight))
      = received (snd (last (replies (snd (serve_connection (honest 5 ''u'' undefined) ?srv)))))"
    by (simp add: serve_connection_def sample_neg_def reply_def honest_def)
qed (simp_all add: sample_opts_def sample_neg_def)

text \<open>
  C14. A whole test. A client with a host to connect to and a server with no test in flight come from the
  options to the end: the server accepts the client's hello and parameters; if each end reads in the
  exchange what the other sends, both controllers finish, the messages the client follows are those the
  server sends, one data stream is opened for each the server waits for, and the two ends print the
  same pair of results, each its own first.
\<close>

theorem client_and_server_complete:
  assumes "opt_client opts = Some host" "neg_connect neg = Inr ()" "neg_hello neg = Inr ()"
    and "neg_welcome neg = Inr Welcome" "neg_params neg = Inr ()"
    and p: "p = from_opts opts DEFAULT_BLOCK_SIZE"
    and client: "start_client common opts uuid neg = Inr client"
    and idle: "in_flight srv = None"
    and server: "in_flight (snd (serve_connection (honest s uuid p) srv)) = Some (server, Spawned)"
    and needed: "conns \<noteq> []" "length conns = total_needed_streams (test server)"
    and dialled: "map (connect_data_stream (test client)) (dials ev1) = map Inr dconns"
      "length dconns = length conns"
    and sterms: "distinct (map fst sterms)" "set (map fst sterms) = {..<length conns}"
      "\<forall>(sid, ev') \<in> set sterms. joins ev' sid \<noteq> JoinError"
    and cterms: "distinct (map fst cterms)" "set (map fst cterms) \<subseteq> {..<length conns}"
      "\<forall>(sid, ev') \<in> set cterms. joins ev' sid \<noteq> JoinError"
    and rs: "rs = run_controller ev server (accept_events conns @ term_events sterms)"
    and rc: "rc = run_controller ev client
      ((ServerSays (Inr (SetState (CreateStreams uuid))), ev1) # (ServerSays (Inr (SetState Running)), ev2)
       # term_events cterms @ [(ServerSays (Inr (SetState ExchangeResults)), ev3)])"
    and wire: "from_client (snd (last sterms)) = Inr (ClientSendResults lc)"
      "last (sent_of rc) = ToServer (ClientSendResults lc)"
      "from_server ev3 = Inr (ServerSendResults ls)" "last (sent_of rs) = ToClient (ServerSendResults ls)"
  shows "(\<exists>s' c'. rs = Finished s' \<and> rc = Finished c'
      \<and> control_sent (test s') = map ToClient [Welcome, SetState (CreateStreams uuid), SetState Running,
           SetState ExchangeResults, ServerSendResults ls]
      \<and> control_sent (test c') = map ToServer [Hello uuid, SendParameters p, ClientSendResults lc]
      \<and> printed s' = [Header, Summary ls lc (direction p)]
          @ (if opt_latency opts then [LatencySummary ls lc] else []) @ [Done]
      \<and> printed c' = [Header, Summary lc ls (direction p)]
          @ (if opt_latency opts then [LatencySummary lc ls] else []) @ [Done])
    \<and> run_client common opts uuid neg ev
      ((ServerSays (Inr (SetState (CreateStreams uuid))), ev1) # (ServerSays (Inr (SetState Running)), ev2)
       # term_events cterms @ [(ServerSays (Inr (SetState ExchangeResults)), ev3)]) = Some (Inr ())"
proof -
  let ?a = "host @ '':'' @ decimal (unat (port common))"
  let ?sent = "[ToServer (Hello uuid), ToServer (SendParameters p)]"
  have lat: "measure_latency p = opt_latency opts" by (simp add: p from_opts_def)
  have fc: "client = fresh_client ?a uuid ?sent p"
    using client start_client_fresh [OF assms(1-5), of common uuid] p by simp
  have fs: "server = fresh_server uuid [ToClient Welcome] p"
    using server serve_honest [OF idle, of s uuid p] by simp
  have agree: "total_needed_streams (test client) = total_needed_streams (test server)"
    by (simp add: fc fs fresh_client_def fresh_server_def controller_new_def total_needed_streams_new)
  obtain s' ls' where s': "rs = Finished s'"
      "control_sent (test s') = [ToClient Welcome] @ map ToClient [SetState (CreateStreams uuid), SetState Running,
         SetState ExchangeResults, ServerSendResults ls']"
      "printed s' = [Header, Summary ls' lc (direction p)]
        @ (if measure_latency p then [LatencySummary ls' lc] else []) @ [Done]"
    using server_session [OF needed(1), of uuid "[ToClient Welcome]" p sterms lc _ ev]
      needed(2) sterms wire(1) unfolding rs fs by blast
  have "length dconns = total_needed_streams (test client)" using dialled(2) needed(2) agree by simp
  then obtain c' lc' where c': "rc = Finished c'"
      "control_sent (test c') = ?sent @ [ToServer (ClientSendResults lc')]"
      "printed c' = [Header, Summary lc' ls (direction p)]
        @ (if measure_latency p then [LatencySummary lc' ls] else []) @ [Done]"
    using client_session [of ?a uuid ?sent p ev1 dconns cterms ev3 ls ev uuid ev2]
      dialled cterms wire(3) unfolding rc fc by auto
  have "ls' = ls" "lc' = lc" using wire(2,4) s'(1,2) c'(1,2) by (simp_all add: sent_of_def)
  moreover have "run_client common opts uuid neg ev
      ((ServerSays (Inr (SetState (CreateStreams uuid))), ev1) # (ServerSays (Inr (SetState Running)), ev2)
       # term_events cterms @ [(ServerSays (Inr (SetState ExchangeResults)), ev3)]) = Some (Inr ())"
    using client c'(1) unfolding run_client_def rc by simp
  ultimately show ?thesis using s' c' lat by auto
qed


theorem client_and_server_complete_witness:
  "run_client sample_common sample_opts ''u'' (sample_neg (Inr Welcome)) session_env
      [(ServerSays (Inr (SetState (CreateStreams ''u''))), session_env),
       (ServerSays (Inr (SetState Running)), session_env),
       (ServerSays (Inr (SetState ExchangeResults)), session_env)] = Some (Inr ())"
proof -
  let ?p = "from_opts sample_opts DEFAULT_BLOCK_SIZE"
  let ?c = "fresh_client ''h:7559'' ''u'' [ToServer (Hello ''u''), ToServer (SendParameters ?p)] ?p"
  let ?s = "fresh_server ''u'' [ToClient Welcome] ?p"
  let ?e = session_env
  have dec: "''h'' @ '':'' @ decimal (unat (port sample_common)) = ''h:7559''"
    by (simp add: sample_common_def decimal.simps char_of_def bit_0)
  have c: "start_client sample_common sample_opts ''u'' (sample_neg (Inr Welcome)) = Inr ?c"
    using start_client_fresh [of sample_opts "''h''" "sample_neg (Inr Welcome)" Welcome sample_common "''u''"]
    unfolding dec by (simp add: sample_opts_def sample_neg_def)
  have s: "in_flight (snd (serve_connection (honest 5 ''u'' ?p) server_init)) = Some (?s, Spawned)"
    by (subst serve_honest) (simp_all add: server_init_def)
  have n: "total_needed_streams (test ?s) = Suc 0"
    by (simp add: fresh_server_def controller_new_def total_needed_streams_new sample_opts_def from_opts_def)
  have d: "map (connect_data_stream (test ?c)) (dials ?e) = map Inr [30]"
    by (simp add: fresh_client_def controller_new_def connect_data_stream_def session_env_def)
  have w: "from_client ?e = Inr (ClientSendResults sample_results)"
      "from_server ?e = Inr (ServerSendResults sample_results)"
    by (simp_all add: session_env_def sample_env_def)
  have rc: "last (sent_of (run_controller ?e ?c
      ((ServerSays (Inr (SetState (CreateStreams ''u''))), ?e) # (ServerSays (Inr (SetState Running)), ?e)
       # term_events [] @ [(ServerSays (Inr (SetState ExchangeResults)), ?e)]))) = ToServer (ClientSendResults sample_results)"
    by code_simp
  have rs: "last (sent_of (run_controller ?e ?s (accept_events [(7, ?e)] @ term_events [(0, ?e)])))
      = ToClient (ServerSendResults sample_results)"
    by code_simp
  have j: "joins ?e 0 \<noteq> JoinError" by (simp add: session_env_def sample_env_def)
  show ?thesis
    using client_and_server_complete [where host = "''h''" and opts = sample_opts and neg = "sample_neg (Inr Welcome)"
        and p = ?p and common = sample_common and uuid = "''u''" and client = ?c and srv = server_init and s = 5
        and server = ?s and conns = "[(7, ?e)]" and ?ev1.0 = ?e and dconns = "[30]" and sterms = "[(0, ?e)]"
        and cterms = "[]" and ev = ?e and ?ev2.0 = ?e and ?ev3.0 = ?e and lc = sample_results and ls = sample_results,
        OF _ _ _ _ _ refl c _ s _ _ d _ _ _ _ _ _ _ refl refl _ rc _ rs] n w j
    by (simp add: sample_opts_def sample_neg_def server_init_def lessThan_Suc)
qed

end
