(* ===== verification/Negotiation.thy ===== *)
theory Negotiation
  imports Client Framing ServerInv
begin

text \<open>
  The negotiation at the level of bytes: the frames a client writes, cut into any pieces, are what the
  accept loop makes its decisions on, and the frame it answers with is what the client reads.
\<close>

section \<open>A connection\<close>

text \<open>A future raced against a timer, when it takes the given time to complete.\<close>

definition timeout :: "nat \<Rightarrow> nat \<Rightarrow> 'a \<Rightarrow> 'a option" where
  "timeout limit took x = (if took < limit then Some x else None)"

text \<open>
  What the accept loop gets from a socket: its first message, the result of writing the welcome, and the
  message after the first when it is there before the protocol timeout lapses.
\<close>

definition inbound_on ::
    "(byte list \<Rightarrow> client_envelope option) \<Rightarrow> (server_envelope \<Rightarrow> byte list option) \<Rightarrow> tcp_stream
      \<Rightarrow> piece list \<Rightarrow> tx_half \<Rightarrow> nat \<Rightarrow> inbound" where
  "inbound_on de ser st rx tx took =
     (case server_read_message de pieces_u32 pieces_read rx of
        (first, rx') \<Rightarrow>
          \<lparr>inb_stream = st, inb_first = first,
           inb_welcome = fst (server_send_message ser tx_write tx Welcome),
           inb_params = timeout PROTOCOL_TIMEOUT took (fst (server_read_message de pieces_u32 pieces_read rx'))\<rparr>)"

text \<open>The messages of a client before its test starts, and of one of its data connections.\<close>

definition write_negotiation ::
    "(client_envelope \<Rightarrow> byte list option) \<Rightarrow> string \<Rightarrow> test_parameters \<Rightarrow> tx_half \<Rightarrow> (any_error + unit) \<times> tx_half" where
  "write_negotiation ser uuid p tx =
     (case client_send_message ser tx_write tx (Hello uuid) of
        (Inl e, tx') \<Rightarrow> (Inl e, tx')
      | (Inr _, tx') \<Rightarrow> client_send_message ser tx_write tx' (SendParameters p))"

text \<open>A codec that is faithful on one message, whose frame a receiver accepts.\<close>

definition faithful :: "('m \<Rightarrow> byte list option) \<Rightarrow> (byte list \<Rightarrow> 'm option) \<Rightarrow> 'm \<Rightarrow> bool" where
  "faithful ser de m \<longleftrightarrow> (\<exists>payload. ser m = Some payload \<and> de payload = Some m \<and> length payload \<le> 20971520)"

lemma faithful_send:
  assumes "faithful ser de m" "\<not> tx_broken t"
  obtains payload t' where "ser m = Some payload" "de payload = Some m" "length payload \<le> 20971520"
    "send_control_message ser tx_write t m = (Inr (), t')" "\<not> tx_broken t'" "tx_sent t' = tx_sent t @ frame payload"
proof -
  obtain payload where p: "ser m = Some payload" "de payload = Some m" "length payload \<le> 20971520"
    using assms(1) by (auto simp: faithful_def)
  show ?thesis
    using tx.send_control_message_frame [of t ser m payload] assms(2) p that [OF p] by blast
qed

lemma server_reads:
  assumes "pieces_healthy s" "pieces_contents s = frame payload @ rest" "length payload \<le> 20971520"
    and "de payload = Some (ClientMessage m)"
  shows "\<exists>s'. server_read_message de pieces_u32 pieces_read s = (Inr m, s') \<and> pieces_healthy s' \<and> pieces_contents s' = rest"
  using socket.read_frame [of s payload rest de "ClientMessage m"] assms by (fastforce simp: server_read_message_def)

text \<open>The bytes of a client make the connection of theory \<open>Client\<close>, whose outcomes are given.\<close>

lemma inbound_on_honest:
  assumes "faithful cser cde (ClientMessage (Hello uuid))" "faithful cser cde (ClientMessage (SendParameters p))"
    and "faithful sser sde (ServerMessage Welcome)" "\<not> tx_broken ctx" "\<not> tx_broken stx"
    and "write_negotiation cser uuid p ctx = (r, ctx')"
    and "pieces_healthy rx" "tx_sent ctx @ pieces_contents rx = tx_sent ctx' @ rest"
  shows "r = Inr () \<and> inbound_on cde sser st rx stx took
    = (honest st uuid p)\<lparr>inb_params := timeout PROTOCOL_TIMEOUT took (Inr (SendParameters p))\<rparr>"
proof -
  obtain pl1 t1 where t1: "cser (ClientMessage (Hello uuid)) = Some pl1" "cde pl1 = Some (ClientMessage (Hello uuid))"
      "length pl1 \<le> 20971520" "send_control_message cser tx_write ctx (ClientMessage (Hello uuid)) = (Inr (), t1)"
      "\<not> tx_broken t1" "tx_sent t1 = tx_sent ctx @ frame pl1"
    by (rule faithful_send [OF assms(1,4)])
  obtain pl2 t2 where t2: "cser (ClientMessage (SendParameters p)) = Some pl2"
      "cde pl2 = Some (ClientMessage (SendParameters p))" "length pl2 \<le> 20971520"
      "send_control_message cser tx_write t1 (ClientMessage (SendParameters p)) = (Inr (), t2)"
      "\<not> tx_broken t2" "tx_sent t2 = tx_sent t1 @ frame pl2"
    by (rule faithful_send [OF assms(2) t1(5)])
  have r: "r = Inr ()" "ctx' = t2"
    using assms(6) t1(4) t2(4) by (simp_all add: write_negotiation_def client_send_message_def)
  then have "pieces_contents rx = frame pl1 @ frame pl2 @ rest" using assms(8) t1(6) t2(6) by simp
  then obtain rx' where rx': "server_read_message cde pieces_u32 pieces_read rx = (Inr (Hello uuid), rx')"
      "pieces_healthy rx'" "pieces_contents rx' = frame pl2 @ rest"
    using server_reads [of rx pl1 "frame pl2 @ rest" cde "Hello uuid"] assms(7) t1(2,3) by blast
  then have "fst (server_read_message cde pieces_u32 pieces_read rx') = Inr (SendParameters p)"
    using server_reads [of rx' pl2 rest cde "SendParameters p"] rx'(2,3) t2(2,3) by fastforce
  moreover have "fst (server_send_message sser tx_write stx Welcome) = Inr ()"
    by (rule faithful_send [OF assms(3,5)]) (simp add: server_send_message_def)
  ultimately show ?thesis using r rx' by (simp add: inbound_on_def honest_def)
qed

text \<open>What the server makes of the bytes of a client, for every time the parameters take.\<close>

lemma serve_negotiation:
  assumes "faithful cser cde (ClientMessage (Hello uuid))" "faithful cser cde (ClientMessage (SendParameters p))"
    and "faithful sser sde (ServerMessage Welcome)" "\<not> tx_broken ctx" "\<not> tx_broken stx"
    and "write_negotiation cser uuid p ctx = (r, ctx')"
    and "pieces_healthy rx" "tx_sent ctx @ pieces_contents rx = tx_sent ctx' @ rest" "in_flight srv = None"
  shows "r = Inr () \<and> serve_connection (inbound_on cde sser st rx stx took) srv = (Inr (),
      (reply st (ServerMessage Welcome) srv)\<lparr>in_flight :=
        (if took < PROTOCOL_TIMEOUT then Some (fresh_server uuid [ToClient Welcome] p, Spawned) else None)\<rparr>)"
proof -
  have "r = Inr ()" and inb: "inbound_on cde sser st rx stx took
      = (honest st uuid p)\<lparr>inb_params := timeout PROTOCOL_TIMEOUT took (Inr (SendParameters p))\<rparr>"
    using inbound_on_honest [OF assms(1-8)] by auto
  moreover have "serve_connection (inbound_on cde sser st rx stx took) srv = (Inr (),
      (reply st (ServerMessage Welcome) srv)\<lparr>in_flight :=
        (if took < PROTOCOL_TIMEOUT then Some (fresh_server uuid [ToClient Welcome] p, Spawned) else None)\<rparr>)"
    unfolding inb using serve_honest [OF assms(9), of st uuid p] assms(9)
    by (simp add: timeout_def)
      (simp add: serve_connection_def honest_def create_test_def read_cookie_def welcomed_def reply_def Let_def)
  ultimately show ?thesis by simp
qed

section \<open>Properties\<close>

text \<open>
  C8. The negotiation over the wire: the hello and the parameters a client writes, however TCP cuts them,
  make an idle server create the test of this client, with its cookie and its parameters, and spawn its
  controller, when the parameters are there within the five seconds the code announces; when they take
  \<open>PROTOCOL_TIMEOUT\<close> or longer the server goes back to being idle, ready for the next client. The bytes the
  server writes are the welcome in either case, which is what the client's read returns.
\<close>

theorem negotiation_over_the_wire:
  assumes "faithful cser cde (ClientMessage (Hello uuid))" "faithful cser cde (ClientMessage (SendParameters p))"
    and "faithful sser sde (ServerMessage Welcome)" "\<not> tx_broken ctx" "\<not> tx_broken stx"
    and "write_negotiation cser uuid p ctx = (r, ctx')"
    and "pieces_healthy rx" "tx_sent ctx @ pieces_contents rx = tx_sent ctx' @ rest"
    and "server_send_message sser tx_write stx Welcome = (w, stx')"
    and "pieces_healthy crx" "tx_sent stx @ pieces_contents crx = tx_sent stx' @ crest"
    and "in_flight srv = None"
  shows "r = Inr () \<and> w = Inr ()
    \<and> (took < 5 * 1000000000 \<longrightarrow> serve_connection (inbound_on cde sser st rx stx took) srv = (Inr (),
        (reply st (ServerMessage Welcome) srv)\<lparr>in_flight := Some (fresh_server uuid [ToClient Welcome] p, Spawned)\<rparr>))
    \<and> (PROTOCOL_TIMEOUT \<le> took \<longrightarrow> serve_connection (inbound_on cde sser st rx stx took) srv = (Inr (),
        reply st (ServerMessage Welcome) srv))
    \<and> fst (client_read_message sde pieces_u32 pieces_read crx) = Inr Welcome"
proof -
  note s = serve_negotiation [OF assms(1-8,12), of st took]
  obtain payload t' where t': "sde payload = Some (ServerMessage Welcome)" "length payload \<le> 20971520"
      "send_control_message sser tx_write stx (ServerMessage Welcome) = (Inr (), t')"
      "tx_sent t' = tx_sent stx @ frame payload"
    by (rule faithful_send [OF assms(3,5)]) blast
  then have w: "w = Inr ()" and crx: "pieces_contents crx = frame payload @ crest"
    using assms(9,11) by (auto simp: server_send_message_def)
  moreover have "fst (client_read_message sde pieces_u32 pieces_read crx) = Inr Welcome"
    using socket.read_frame [of crx payload crest sde "ServerMessage Welcome"] assms(10) crx t'(1,2)
    by (auto simp: client_read_message_def)
  moreover have "(reply st (ServerMessage Welcome) srv)\<lparr>in_flight := None\<rparr> = reply st (ServerMessage Welcome) srv"
    using assms(12) by (simp add: reply_def)
  ultimately show ?thesis using s by (simp add: PROTOCOL_TIMEOUT_def)
qed

definition sample_cde :: "byte list \<Rightarrow> client_envelope option" where
  "sample_cde bs = (if bs = [1] then Some (ClientMessage (Hello ''k'')) else
     if bs = [2, 2] then Some (ClientMessage (SendParameters (sample_params ClientToServer 1))) else None)"

definition sample_pieces :: "piece list" where
  "sample_pieces = [Data [0, 0, 0], Data [1, 1, 0, 0], Data [], Data [0, 2, 2, 2]]"

definition idle_tx :: tx_half where
  "idle_tx = \<lparr>tx_sent = [], tx_broken = False\<rparr>"

lemma sample_negotiation:
  "write_negotiation (\<lambda>m. if m = ClientMessage (Hello ''k'') then Some [1 :: byte] else Some [2, 2]) ''k''
     (sample_params ClientToServer 1) idle_tx = (Inr (), \<lparr>tx_sent = [0, 0, 0, 1, 1, 0, 0, 0, 2, 2, 2], tx_broken = False\<rparr>)"
  "server_send_message (\<lambda>m. Some [3 :: byte]) tx_write idle_tx Welcome = (Inr (), \<lparr>tx_sent = [0, 0, 0, 1, 3], tx_broken = False\<rparr>)"
  by (simp_all add: write_negotiation_def client_send_message_def server_send_message_def send_control_message_def
      tx_write_def u32_be_def idle_tx_def)

theorem negotiation_over_the_wire_witness:
  "serve_connection (inbound_on sample_cde (\<lambda>m. Some [3]) 7 sample_pieces idle_tx 4000000000) server_init
      = (Inr (), \<lparr>in_flight = Some (fresh_server ''k'' [ToClient Welcome] (sample_params ClientToServer 1), Spawned),
           detached = [], replies = [(7, ServerMessage Welcome)]\<rparr>)
    \<and> serve_connection (inbound_on sample_cde (\<lambda>m. Some [3]) 7 sample_pieces idle_tx 10000000000) server_init
      = (Inr (), \<lparr>in_flight = None, detached = [], replies = [(7, ServerMessage Welcome)]\<rparr>)
    \<and> fst (client_read_message (\<lambda>bs. if bs = [3] then Some (ServerMessage Welcome) else None) pieces_u32 pieces_read
        [Data [0, 0, 0, 1], Data [3]]) = Inr Welcome"
proof -
  note t = negotiation_over_the_wire [where cser = "\<lambda>m. if m = ClientMessage (Hello ''k'') then Some [1] else Some [2, 2]"
      and cde = sample_cde and sser = "\<lambda>m. Some [3]" and sde = "\<lambda>bs. if bs = [3] then Some (ServerMessage Welcome) else None"
      and rx = sample_pieces and rest = "[]" and crx = "[Data [0, 0, 0, 1], Data [3]]" and crest = "[]" and srv = server_init
      and st = 7, OF _ _ _ _ _ sample_negotiation(1) _ _ sample_negotiation(2)]
  show ?thesis
    using t [where took = 4000000000] t [where took = 10000000000]
    by (simp add: faithful_def sample_cde_def sample_pieces_def pieces_healthy_def server_init_def idle_tx_def
        PROTOCOL_TIMEOUT_def reply_def)
qed

text \<open>
  The announced five seconds are not what is enforced: a server whose client takes longer for its parameters,
  but less than \<open>PROTOCOL_TIMEOUT\<close>, ten seconds, creates the test all the same.
\<close>

theorem late_parameters_accepted:
  assumes "faithful cser cde (ClientMessage (Hello uuid))" "faithful cser cde (ClientMessage (SendParameters p))"
    and "faithful sser sde (ServerMessage Welcome)" "\<not> tx_broken ctx" "\<not> tx_broken stx"
    and "write_negotiation cser uuid p ctx = (r, ctx')"
    and "pieces_healthy rx" "tx_sent ctx @ pieces_contents rx = tx_sent ctx' @ rest" "in_flight srv = None"
    and "5 * 1000000000 \<le> took" "took < 10 * 1000000000"
  shows "in_flight (snd (serve_connection (inbound_on cde sser st rx stx took) srv))
    = Some (fresh_server uuid [ToClient Welcome] p, Spawned)"
  using serve_negotiation [OF assms(1-9), of st took] assms(11) by (simp add: PROTOCOL_TIMEOUT_def)

theorem late_parameters_accepted_witness:
  "in_flight (snd (serve_connection (inbound_on sample_cde (\<lambda>m. Some [3]) 7 sample_pieces idle_tx 9000000000) server_init))
    = Some (fresh_server ''k'' [ToClient Welcome] (sample_params ClientToServer 1), Spawned)"
  using late_parameters_accepted [where cser = "\<lambda>m. if m = ClientMessage (Hello ''k'') then Some [1] else Some [2, 2]"
      and cde = sample_cde and sser = "\<lambda>m. Some [3]" and sde = "\<lambda>bs. if bs = [3] then Some (ServerMessage Welcome) else None"
      and rx = sample_pieces and rest = "[]" and srv = server_init and st = 7 and took = 9000000000
      and stx = idle_tx, OF _ _ _ _ _ sample_negotiation(1)]
  by (simp add: faithful_def sample_cde_def sample_pieces_def pieces_healthy_def server_init_def idle_tx_def)

text \<open>
  C23. Authentication over the wire: while streams are created, a connection whose bytes start with the frame of
  a hello is refused when the hello carries another cookie than that of the test. One with the cookie is welcomed and
  queued for the controller when its channel has room; when the channel is full the accept loop ends with
  that error, after the welcome. What follows on the socket is not looked at.
\<close>

theorem data_hello_over_the_wire:
  assumes "faithful cser cde (ClientMessage (Hello k))" "faithful sser sde (ServerMessage Welcome)"
    and "\<not> tx_broken ctx" "\<not> tx_broken stx"
    and "client_send_message cser tx_write ctx (Hello k) = (r, ctx')"
    and "pieces_healthy rx" "tx_sent ctx @ pieces_contents rx = tx_sent ctx' @ rest"
    and "in_flight srv = Some (c, ph)" "test_state (test c) = CreateStreams ck"
  shows "serve_connection (inbound_on cde sser st rx stx took) srv =
    (if k \<noteq> ck then (Inr (), reply st already_in_flight srv)
     else if length (mailbox c) < INTERNAL_PROT_BUFFER
     then (Inr (), (reply st (ServerMessage Welcome) srv)\<lparr>in_flight := Some (c\<lparr>mailbox := mailbox c @ [CreateStream st]\<rparr>, ph)\<rparr>)
     else (Inl ChannelFull, reply st (ServerMessage Welcome) srv))"
proof -
  obtain payload t' where t': "cde payload = Some (ClientMessage (Hello k))" "length payload \<le> 20971520"
      "send_control_message cser tx_write ctx (ClientMessage (Hello k)) = (Inr (), t')"
      "tx_sent t' = tx_sent ctx @ frame payload"
    by (rule faithful_send [OF assms(1,3)]) blast
  then have "pieces_contents rx = frame payload @ rest"
    using assms(5,7) by (auto simp: client_send_message_def)
  then obtain rx' where "server_read_message cde pieces_u32 pieces_read rx = (Inr (Hello k), rx')"
    using server_reads [of rx payload rest cde "Hello k"] assms(6) t'(1,2) by blast
  moreover have "fst (server_send_message sser tx_write stx Welcome) = Inr ()"
    by (rule faithful_send [OF assms(2,4)]) (simp add: server_send_message_def)
  ultimately show ?thesis
    using assms(8,9) by (simp add: serve_connection_def inbound_on_def read_cookie_def controller_try_send_def Let_def)
qed

definition full_server :: server where
  "full_server = sample_server\<lparr>in_flight := Some ((the_controller sample_server)
     \<lparr>mailbox := map CreateStream [20..<25]\<rparr>, Waiting (CreateStreams ''k''))\<rparr>"

text \<open>A wrong cookie, the right one, and the right one with a full channel.\<close>

theorem data_hello_over_the_wire_witness:
  "serve_connection (inbound_on (\<lambda>bs. if bs = [1] then Some (ClientMessage (Hello ''x'')) else None)
      (\<lambda>m. Some [3]) 7 [Data [0, 0], Data [0, 1, 1, 9]] idle_tx 5) sample_server
    = (Inr (), reply 7 already_in_flight sample_server)
   \<and> mailbox (the_controller (snd (serve_connection (inbound_on (\<lambda>bs. if bs = [1] then Some (ClientMessage (Hello ''k'')) else None)
      (\<lambda>m. Some [3]) 7 [Data [0, 0], Data [0, 1, 1, 9]] idle_tx 5) sample_server))) = [CreateStream 7]
   \<and> fst (serve_connection (inbound_on (\<lambda>bs. if bs = [1] then Some (ClientMessage (Hello ''k'')) else None)
      (\<lambda>m. Some [3]) 7 [Data [0, 0], Data [0, 1, 1, 9]] idle_tx 5) full_server) = Inl ChannelFull"
proof (intro conjI)
  have w: "client_send_message (\<lambda>m. Some [1 :: byte]) tx_write idle_tx m
      = (Inr (), \<lparr>tx_sent = [0, 0, 0, 1, 1], tx_broken = False\<rparr>)" for m
    by (simp add: client_send_message_def send_control_message_def tx_write_def u32_be_def idle_tx_def)
  have full: "in_flight full_server = Some ((the_controller sample_server)\<lparr>mailbox := map CreateStream [20..<25]\<rparr>, Waiting (CreateStreams ''k''))"
      "test_state (test ((the_controller sample_server)\<lparr>mailbox := map CreateStream [20..<25]\<rparr>)) = CreateStreams ''k''"
    using sample_run_state(6) by (simp_all add: full_server_def)
  note t = data_hello_over_the_wire [where cser = "\<lambda>m. Some [1]" and sser = "\<lambda>m. Some [3]"
      and sde = "\<lambda>bs. if bs = [3] then Some (ServerMessage Welcome) else None" and rx = "[Data [0, 0], Data [0, 1, 1, 9]]"
      and rest = "[9]" and stx = idle_tx and ctx = idle_tx and st = 7 and took = 5, OF _ _ _ _ w]
  note [simp] = faithful_def pieces_healthy_def INTERNAL_PROT_BUFFER_def idle_tx_def
  show "serve_connection (inbound_on (\<lambda>bs. if bs = [1] then Some (ClientMessage (Hello ''x'')) else None)
      (\<lambda>m. Some [3]) 7 [Data [0, 0], Data [0, 1, 1, 9]] idle_tx 5) sample_server = (Inr (), reply 7 already_in_flight sample_server)"
    using t [OF _ _ _ _ _ _ sample_run_state(2,6), of "\<lambda>bs. if bs = [1] then Some (ClientMessage (Hello ''x'')) else None" "''x''"] by simp
  show "mailbox (the_controller (snd (serve_connection (inbound_on (\<lambda>bs. if bs = [1] then Some (ClientMessage (Hello ''k'')) else None)
      (\<lambda>m. Some [3]) 7 [Data [0, 0], Data [0, 1, 1, 9]] idle_tx 5) sample_server))) = [CreateStream 7]"
    using t [OF _ _ _ _ _ _ sample_run_state(2,6), of "\<lambda>bs. if bs = [1] then Some (ClientMessage (Hello ''k'')) else None" "''k''"]
      sample_run_state(7) by (simp add: the_controller_def)
  show "fst (serve_connection (inbound_on (\<lambda>bs. if bs = [1] then Some (ClientMessage (Hello ''k'')) else None)
      (\<lambda>m. Some [3]) 7 [Data [0, 0], Data [0, 1, 1, 9]] idle_tx 5) full_server) = Inl ChannelFull"
    using t [OF _ _ _ _ _ _ full, of "\<lambda>bs. if bs = [1] then Some (ClientMessage (Hello ''k'')) else None" "''k''"] by simp
qed

end
