(* ===== verification/Float64.thy ===== *)
theory Float64
  imports Prelude Complex_Main
begin

text \<open>
  The double-precision arithmetic of the reports and of the goodput windows: rounding to nearest,
  ties to even, of quotients of natural numbers, the operations over it, and the error bound of one
  rounding.
\<close>

section \<open>Numbers and operations\<close>

text \<open>
  The floating-point numbers of the program are quotients and products of \<open>u64\<close> values: never
  negative, and far from both ends of the exponent range. \<open>Fin m e\<close> is \<open>m * 2 ^ e\<close>.
\<close>

datatype f64 = Fin nat int | Infinite | NaN

fun bit_length :: "nat \<Rightarrow> nat" where
  "bit_length n = (if n = 0 then 0 else Suc (bit_length (n div 2)))"

declare bit_length.simps [simp del]

definition round_half_even :: "nat \<Rightarrow> nat \<Rightarrow> nat" where
  "round_half_even n d =
     (let q = n div d; r = n mod d
      in if 2 * r < d \<or> 2 * r = d \<and> even q then q else Suc q)"

definition scale :: "nat \<Rightarrow> nat \<Rightarrow> int \<Rightarrow> nat \<times> nat" where
  "scale a b e = (if 0 \<le> e then (a, b * 2 ^ nat e) else (a * 2 ^ nat (- e), b))"

text \<open>The double nearest to \<open>a / b\<close>, ties to even.\<close>

definition rnd :: "nat \<Rightarrow> nat \<Rightarrow> f64" where
  "rnd a b =
     (if a = 0 then Fin 0 0
      else (let e0 = int (bit_length a) - int (bit_length b) - 53;
                e = (case scale a b e0 of (n, d) \<Rightarrow> if 2 ^ 53 * d \<le> n then e0 + 1 else e0)
            in case scale a b e of (n, d) \<Rightarrow> Fin (round_half_even n d) e))"

definition frac :: "nat \<Rightarrow> int \<Rightarrow> nat \<times> nat" where
  "frac m e = (if 0 \<le> e then (m * 2 ^ nat e, 1) else (m, 2 ^ nat (- e)))"

definition f64_of :: "u64 \<Rightarrow> f64" where
  "f64_of w = rnd (unat w) 1"

fun f64_mul :: "f64 \<Rightarrow> f64 \<Rightarrow> f64" where
  "f64_mul (Fin m e) (Fin m' e') =
     (case (frac m e, frac m' e') of ((a, b), (c, d)) \<Rightarrow> rnd (a * c) (b * d))"
| "f64_mul (Fin m e) Infinite = (if m = 0 then NaN else Infinite)"
| "f64_mul Infinite (Fin m e) = (if m = 0 then NaN else Infinite)"
| "f64_mul Infinite Infinite = Infinite"
| "f64_mul _ _ = NaN"

fun f64_div :: "f64 \<Rightarrow> f64 \<Rightarrow> f64" where
  "f64_div (Fin m e) (Fin m' e') =
     (if m' = 0 then (if m = 0 then NaN else Infinite)
      else (case (frac m e, frac m' e') of ((a, b), (c, d)) \<Rightarrow> rnd (a * d) (b * c)))"
| "f64_div (Fin m e) Infinite = Fin 0 0"
| "f64_div Infinite (Fin m e) = Infinite"
| "f64_div _ _ = NaN"

fun f64_add :: "f64 \<Rightarrow> f64 \<Rightarrow> f64" where
  "f64_add (Fin m e) (Fin m' e') =
     (case (frac m e, frac m' e') of ((a, b), (c, d)) \<Rightarrow> rnd (a * d + c * b) (b * d))"
| "f64_add NaN _ = NaN"
| "f64_add _ NaN = NaN"
| "f64_add _ _ = Infinite"

fun f64_less :: "f64 \<Rightarrow> f64 \<Rightarrow> bool" where
  "f64_less (Fin m e) (Fin m' e') =
     (case (frac m e, frac m' e') of ((a, b), (c, d)) \<Rightarrow> a * d < c * b)"
| "f64_less (Fin m e) Infinite = True"
| "f64_less _ _ = False"

text \<open>The comparisons are false when either side is not a number.\<close>

instantiation f64 :: ord
begin

definition less_f64 :: "f64 \<Rightarrow> f64 \<Rightarrow> bool" where
  "x < y \<longleftrightarrow> f64_less x y"

definition less_eq_f64 :: "f64 \<Rightarrow> f64 \<Rightarrow> bool" where
  "x \<le> y \<longleftrightarrow> x \<noteq> NaN \<and> y \<noteq> NaN \<and> \<not> f64_less y x"

instance ..

end

text \<open>\<open>as u64\<close> truncates and saturates.\<close>

fun u64_of :: "f64 \<Rightarrow> u64" where
  "u64_of (Fin m e) = (case frac m e of (a, b) \<Rightarrow> of_nat (min (a div b) (2 ^ 64 - 1)))"
| "u64_of Infinite = - 1"
| "u64_of NaN = 0"

fun f64_val :: "f64 \<Rightarrow> real" where
  "f64_val (Fin m e) = real m * 2 powi e"
| "f64_val _ = 0"

section \<open>The error of one rounding\<close>

lemma bit_length_numeral [simp]:
  "bit_length 0 = 0" "bit_length (Suc 0) = 1" "bit_length 1 = 1"
  "bit_length (numeral (Num.Bit0 n)) = Suc (bit_length (numeral n))"
  "bit_length (numeral (Num.Bit1 n)) = Suc (bit_length (numeral n))"
  by (subst bit_length.simps; simp add: bit_length.simps [of 0])+

lemma bit_length_bounds:
  assumes "0 < n"
  shows "2 ^ (bit_length n - 1) \<le> n \<and> n < 2 ^ bit_length n \<and> 0 < bit_length n"
  using assms
proof (induction n rule: bit_length.induct)
  case (1 n)
  show ?case
  proof (cases "n div 2 = 0")
    case True
    then have "n = 1" using 1 by auto
    then show ?thesis by (simp add: bit_length.simps)
  next
    case False
    then have "2 ^ (bit_length (n div 2) - 1) \<le> n div 2 \<and> n div 2 < 2 ^ bit_length (n div 2)
        \<and> 0 < bit_length (n div 2)"
      using 1 by auto
    moreover then have "2 ^ bit_length (n div 2) = 2 * (2::nat) ^ (bit_length (n div 2) - 1)"
      by (metis Suc_diff_1 power_Suc)
    moreover have "bit_length n = Suc (bit_length (n div 2))" using 1 by (simp add: bit_length.simps [of n])
    ultimately show ?thesis using False by simp linarith
  qed
qed

lemma scale_real:
  assumes "0 < b"
  shows "real (fst (scale a b e)) / real (snd (scale a b e)) = real a / real b * 2 powi (- e)"
    "0 < snd (scale a b e)"
  using assms by (auto simp: scale_def power_int_def field_simps)

lemma round_half_even_error:
  assumes "0 < d"
  shows "\<bar>real (round_half_even n d) - real n / real d\<bar> \<le> 1 / 2"
proof -
  have n: "real n = real d * real (n div d) + real (n mod d)"
    by (metis of_nat_add of_nat_mult mult_div_mod_eq)
  have "real n / real d = real (n div d) + real (n mod d) / real d"
    using assms n by (simp add: field_simps)
  moreover have "0 \<le> real (n mod d) / real d" by simp
  moreover have "real (n mod d) / real d \<le> 1 / 2" if "2 * (n mod d) \<le> d"
  proof -
    have "2 * real (n mod d) \<le> real d" using that by linarith
    then show ?thesis using assms by (simp add: field_simps)
  qed
  moreover have "1 / 2 \<le> real (n mod d) / real d" if "d \<le> 2 * (n mod d)"
  proof -
    have "real d \<le> 2 * real (n mod d)" using that by linarith
    then show ?thesis using assms by (simp add: field_simps)
  qed
  moreover have "real (n mod d) / real d < 1" using assms by simp
  ultimately show ?thesis by (auto simp: round_half_even_def Let_def abs_le_iff)
qed

lemma bit_length_real:
  assumes "0 < n"
  shows "2 powi (int (bit_length n) - 1) \<le> real n" "real n < 2 powi int (bit_length n)"
proof -
  have "real (2 ^ (bit_length n - 1)) \<le> real n" "real n < real (2 ^ bit_length n)"
    using bit_length_bounds [OF assms] by (simp_all only: of_nat_le_iff of_nat_less_iff)
  then show "2 powi (int (bit_length n) - 1) \<le> real n" "real n < 2 powi int (bit_length n)"
    using bit_length_bounds [OF assms] by (simp_all add: power_int_def nat_diff_distrib)
qed

text \<open>The exponent of \<open>rnd\<close> leaves a quotient of 53 bits.\<close>

definition rnd_exponent :: "nat \<Rightarrow> nat \<Rightarrow> int" where
  "rnd_exponent a b =
     (let e0 = int (bit_length a) - int (bit_length b) - 53
      in case scale a b e0 of (n, d) \<Rightarrow> if 2 ^ 53 * d \<le> n then e0 + 1 else e0)"

lemma rnd_exponent_bounds:
  assumes "0 < a" "0 < b"
  shows "2 ^ 52 \<le> real a / real b * 2 powi (- rnd_exponent a b)"
    "real a / real b * 2 powi (- rnd_exponent a b) < 2 ^ 53"
proof -
  let ?e0 = "int (bit_length a) - int (bit_length b) - 53"
  let ?q = "real a / real b"
  let ?s0 = "?q * 2 powi (- ?e0)"
  obtain n d where nd: "scale a b ?e0 = (n, d)" by fastforce
  then have s0: "real n / real d = ?s0" "0 < d" using scale_real [OF assms(2), of a ?e0] by simp_all
  have la: "2 powi (int (bit_length a) - 1) \<le> real a" "real a < 2 powi int (bit_length a)"
    and lb: "2 powi (int (bit_length b) - 1) \<le> real b" "real b < 2 powi int (bit_length b)"
    using bit_length_real assms by simp_all
  have "2 powi (int (bit_length a) - 1) / 2 powi int (bit_length b) \<le> ?q"
    using la lb assms by (intro frac_le) simp_all
  then have "2 powi (int (bit_length a) - 1 - int (bit_length b)) * 2 powi (- ?e0) \<le> ?s0"
    by (intro mult_right_mono) (simp_all add: power_int_diff)
  moreover have "(2::real) powi (int (bit_length a) - 1 - int (bit_length b)) * 2 powi (- ?e0) = 2 powi 52"
    by (subst power_int_add [symmetric]) simp_all
  ultimately have low: "2 ^ 52 \<le> ?s0" by simp
  have "?q < 2 powi int (bit_length a) / 2 powi (int (bit_length b) - 1)"
    using la lb assms by (intro frac_less) simp_all
  then have "?s0 < 2 powi (int (bit_length a) - (int (bit_length b) - 1)) * 2 powi (- ?e0)"
    by (intro mult_strict_right_mono) (simp_all add: power_int_diff)
  moreover have "(2::real) powi (int (bit_length a) - (int (bit_length b) - 1)) * 2 powi (- ?e0) = 2 powi 54"
    by (subst power_int_add [symmetric]) simp_all
  ultimately have high: "?s0 < 2 ^ 54" by simp
  have "2 ^ 52 \<le> ?q * 2 powi (- rnd_exponent a b) \<and> ?q * 2 powi (- rnd_exponent a b) < 2 ^ 53"
  proof (cases "2 ^ 53 * d \<le> n")
    case True
    then have "real (2 ^ 53 * d) \<le> real n" by (simp only: of_nat_le_iff)
    then have "2 ^ 53 \<le> ?s0" unfolding s0(1) [symmetric] using s0(2) by (simp add: le_divide_eq)
    moreover have "?q * 2 powi (- rnd_exponent a b) = ?s0 / 2"
    proof -
      have half: "(2::real) powi (- (e + 1)) = 2 powi (- e) / 2" for e :: int
        by (simp add: power_int_diff power_int_minus)
      have "rnd_exponent a b = ?e0 + 1" using True nd by (simp add: rnd_exponent_def)
      then show ?thesis by (simp only: half times_divide_eq_right)
    qed
    moreover have "2 ^ 52 \<le> s / 2 \<and> s / 2 < 2 ^ 53" if "2 ^ 53 \<le> s" "s < 2 ^ 54" for s :: real
      using that by simp
    ultimately show ?thesis
      using high by metis
  next
    case False
    then have "real n < real (2 ^ 53 * d)" by (simp only: of_nat_less_iff not_le)
    then have "?s0 < 2 ^ 53" unfolding s0(1) [symmetric] using s0(2) by (simp add: divide_less_eq)
    moreover have "?q * 2 powi (- rnd_exponent a b) = ?s0" using False nd by (simp add: rnd_exponent_def)
    ultimately show ?thesis
      using low by metis
  qed
  then show "2 ^ 52 \<le> ?q * 2 powi (- rnd_exponent a b)" "?q * 2 powi (- rnd_exponent a b) < 2 ^ 53"
    by blast+
qed

lemma rnd_eq:
  assumes "0 < a"
  shows "rnd a b = (case scale a b (rnd_exponent a b) of (n, d) \<Rightarrow> Fin (round_half_even n d) (rnd_exponent a b))"
  using assms by (simp add: rnd_def rnd_exponent_def Let_def)

text \<open>Rounding is within half a unit in the last place: a relative error of at most \<open>2 ^ -53\<close>.\<close>

lemma rnd_error:
  assumes "0 < b"
  shows "\<bar>f64_val (rnd a b) - real a / real b\<bar> \<le> real a / real b / 2 ^ 53"
proof (cases "a = 0")
  case True
  then show ?thesis by (simp add: rnd_def)
next
  case False
  let ?e = "rnd_exponent a b" and ?q = "real a / real b"
  obtain n d where nd: "scale a b ?e = (n, d)" by fastforce
  have s: "real n / real d = ?q * 2 powi (- ?e)" "0 < d"
    using scale_real [OF assms, of a ?e] nd by simp_all
  have "\<bar>real (round_half_even n d) - ?q * 2 powi (- ?e)\<bar> \<le> 1 / 2"
    using round_half_even_error [OF s(2), of n] s(1) by simp
  also have "\<dots> \<le> ?q * 2 powi (- ?e) / 2 ^ 53"
    using rnd_exponent_bounds(1) [of a b] False assms by (simp del: times_divide_eq_left)
  finally have "\<bar>real (round_half_even n d) - ?q * 2 powi (- ?e)\<bar> * 2 powi ?e
      \<le> ?q * 2 powi (- ?e) / 2 ^ 53 * 2 powi ?e"
    by (intro mult_right_mono) simp_all
  also have "\<dots> = ?q / 2 ^ 53"
    by (simp add: power_int_minus)
  also have "\<bar>real (round_half_even n d) - ?q * 2 powi (- ?e)\<bar> * 2 powi ?e
      = \<bar>real (round_half_even n d) * 2 powi ?e - ?q\<bar>"
  proof -
    have "\<bar>real (round_half_even n d) - ?q * 2 powi (- ?e)\<bar> * 2 powi ?e
        = \<bar>(real (round_half_even n d) - ?q * 2 powi (- ?e)) * 2 powi ?e\<bar>"
      by (simp add: abs_mult)
    also have "(real (round_half_even n d) - ?q * 2 powi (- ?e)) * 2 powi ?e
        = real (round_half_even n d) * 2 powi ?e - ?q"
      by (simp add: left_diff_distrib power_int_minus)
    finally show ?thesis .
  qed
  finally show ?thesis using False nd by (simp add: rnd_eq)
qed

lemma frac_val: "f64_val (Fin m e) = real (fst (frac m e)) / real (snd (frac m e))" "0 < snd (frac m e)"
  by (auto simp: frac_def power_int_def field_simps)

lemmas f64_eval = less_f64_def rnd_def scale_def round_half_even_def frac_def Let_def

section \<open>Relative error\<close>

text \<open>\<open>approx k x y\<close>: \<open>x\<close> is \<open>y\<close> up to \<open>k\<close> roundings.\<close>

definition ulp :: real where
  "ulp = 1 / 2 ^ 53"

definition approx :: "nat \<Rightarrow> real \<Rightarrow> real \<Rightarrow> bool" where
  "approx k x y \<longleftrightarrow> 0 \<le> y \<and> y * (1 - ulp) ^ k \<le> x \<and> x * (1 - ulp) ^ k \<le> y"

lemma ulp_bounds: "0 < ulp" "0 < 1 - ulp" "1 - ulp \<le> 1"
  by (simp_all add: ulp_def)

lemma approx_nonneg: "approx k x y \<Longrightarrow> 0 \<le> x"
proof -
  assume "approx k x y"
  then have "0 \<le> y * (1 - ulp) ^ k" "y * (1 - ulp) ^ k \<le> x"
    using ulp_bounds by (simp_all add: approx_def)
  then show "0 \<le> x" by linarith
qed

lemma approx_exact [simp]: "0 \<le> x \<Longrightarrow> approx 0 x x"
  by (simp add: approx_def)

lemma approx_mono:
  assumes "approx j x y" "j \<le> k"
  shows "approx k x y"
proof -
  have "(1 - ulp) ^ k \<le> (1 - ulp) ^ j" using assms(2) ulp_bounds by (intro power_decreasing) simp_all
  then have "y * (1 - ulp) ^ k \<le> y * (1 - ulp) ^ j" "x * (1 - ulp) ^ k \<le> x * (1 - ulp) ^ j"
    using assms(1) approx_nonneg [OF assms(1)] by (simp_all add: approx_def mult_left_mono)
  then show ?thesis using assms(1) by (auto simp: approx_def)
qed

lemma approx_mult:
  assumes "approx j x y" "approx k x' y'"
  shows "approx (j + k) (x * x') (y * y')"
proof -
  have "(y * (1 - ulp) ^ j) * (y' * (1 - ulp) ^ k) \<le> x * x'"
    using assms approx_nonneg ulp_bounds by (intro mult_mono) (auto simp: approx_def)
  moreover have "(x * (1 - ulp) ^ j) * (x' * (1 - ulp) ^ k) \<le> y * y'"
    using assms approx_nonneg ulp_bounds by (intro mult_mono) (auto simp: approx_def)
  ultimately show ?thesis using assms by (simp add: approx_def power_add mult_ac)
qed

lemma approx_inverse:
  assumes "approx k x y" "0 < y"
  shows "approx k (inverse x) (inverse y)"
proof -
  have "0 < y * (1 - ulp) ^ k" using assms(2) ulp_bounds by simp
  then have x: "0 < x" using assms(1) by (simp add: approx_def)
  have "inverse y * (1 - ulp) ^ k * (x * y) \<le> inverse x * (x * y)"
    "inverse x * (1 - ulp) ^ k * (x * y) \<le> inverse y * (x * y)"
    using assms x by (simp_all add: approx_def field_simps)
  then show ?thesis
    using x assms(2) by (simp add: approx_def mult_le_cancel_right)
qed

lemma approx_divide:
  assumes "approx j x y" "approx k x' y'" "0 < y'"
  shows "approx (j + k) (x / x') (y / y')"
  unfolding divide_inverse by (rule approx_mult [OF assms(1) approx_inverse [OF assms(2,3)]])

lemma approx_add:
  assumes "approx k x y" "approx k x' y'"
  shows "approx k (x + x') (y + y')"
  using assms by (simp add: approx_def distrib_right add_mono)

lemma approx_trans:
  assumes "approx j x y" "approx k y z"
  shows "approx (j + k) x z"
proof -
  have "z * (1 - ulp) ^ k * (1 - ulp) ^ j \<le> y * (1 - ulp) ^ j"
    "x * (1 - ulp) ^ j * (1 - ulp) ^ k \<le> y * (1 - ulp) ^ k"
    using assms ulp_bounds by (auto simp: approx_def intro!: mult_right_mono)
  then show ?thesis using assms by (simp add: approx_def power_add mult_ac)
qed

lemma approx_rnd:
  assumes "0 < b"
  shows "approx 1 (f64_val (rnd a b)) (real a / real b)"
proof -
  define q v where "q = real a / real b" and "v = f64_val (rnd a b)"
  have e: "\<bar>v - q\<bar> \<le> q * ulp" using rnd_error [OF assms, of a] by (simp add: ulp_def q_def v_def)
  have q: "0 \<le> q" by (simp add: q_def)
  have "v * (1 - ulp) \<le> (q + q * ulp) * (1 - ulp)"
    using e ulp_bounds by (intro mult_right_mono) linarith+
  also have "\<dots> = q - q * ulp * ulp" by (simp add: algebra_simps)
  also have "\<dots> \<le> q" using q ulp_bounds by simp
  finally have "approx 1 v q" using e q by (simp add: approx_def right_diff_distrib)
  then show ?thesis by (simp add: q_def v_def)
qed

fun is_fin :: "f64 \<Rightarrow> bool" where
  "is_fin (Fin m e) = True"
| "is_fin _ = False"

lemma is_fin_rnd [simp]: "is_fin (rnd a b)"
  by (auto simp: rnd_def Let_def split: prod.splits)

lemma f64_mul_approx:
  assumes "is_fin x" "is_fin y"
  shows "is_fin (f64_mul x y)" "approx 1 (f64_val (f64_mul x y)) (f64_val x * f64_val y)"
proof -
  obtain m e m' e' where xy: "x = Fin m e" "y = Fin m' e'" using assms by (cases x; cases y) auto
  obtain a b c d where fr: "frac m e = (a, b)" "frac m' e' = (c, d)" by fastforce
  have "f64_val x = real a / real b" "0 < b" "f64_val y = real c / real d" "0 < d"
    using frac_val [of m e] frac_val [of m' e'] fr xy by simp_all
  then show "is_fin (f64_mul x y)" "approx 1 (f64_val (f64_mul x y)) (f64_val x * f64_val y)"
    using approx_rnd [of "b * d" "a * c"] xy fr by simp_all
qed

lemma f64_div_approx:
  assumes "is_fin x" "is_fin y" "0 < f64_val y"
  shows "is_fin (f64_div x y)" "approx 1 (f64_val (f64_div x y)) (f64_val x / f64_val y)"
proof -
  obtain m e m' e' where xy: "x = Fin m e" "y = Fin m' e'" using assms by (cases x; cases y) auto
  obtain a b c d where fr: "frac m e = (a, b)" "frac m' e' = (c, d)" by fastforce
  have v: "f64_val x = real a / real b" "0 < b" "f64_val y = real c / real d" "0 < d"
    using frac_val [of m e] frac_val [of m' e'] fr xy by simp_all
  have "m' \<noteq> 0" using assms(3) xy by (cases m') auto
  moreover have "0 < c" using v(3) assms(3) by (cases c) auto
  ultimately show "is_fin (f64_div x y)" "approx 1 (f64_val (f64_div x y)) (f64_val x / f64_val y)"
    using approx_rnd [of "b * c" "a * d"] xy fr v by simp_all
qed

lemma f64_add_approx:
  assumes "is_fin x" "is_fin y"
  shows "is_fin (f64_add x y)" "approx 1 (f64_val (f64_add x y)) (f64_val x + f64_val y)"
proof -
  obtain m e m' e' where xy: "x = Fin m e" "y = Fin m' e'" using assms by (cases x; cases y) auto
  obtain a b c d where fr: "frac m e = (a, b)" "frac m' e' = (c, d)" by fastforce
  have "f64_val x = real a / real b" "0 < b" "f64_val y = real c / real d" "0 < d"
    using frac_val [of m e] frac_val [of m' e'] fr xy by simp_all
  moreover from this have "f64_val x + f64_val y = real (a * d + c * b) / real (b * d)"
    by (simp add: add_frac_eq)
  ultimately show "is_fin (f64_add x y)" "approx 1 (f64_val (f64_add x y)) (f64_val x + f64_val y)"
    using approx_rnd [of "b * d" "a * d + c * b"] xy fr by simp_all
qed

lemma f64_of_approx: "is_fin (f64_of w)" "approx 1 (f64_val (f64_of w)) (real (unat w))"
  using approx_rnd [of 1 "unat w"] by (simp_all add: f64_of_def)

lemma u64_of_floor:
  assumes "is_fin x" "f64_val x < 2 ^ 64"
  shows "real (unat (u64_of x)) \<le> f64_val x" "f64_val x < real (unat (u64_of x)) + 1"
proof -
  obtain m e where x: "x = Fin m e" using assms(1) by (cases x) auto
  obtain a b where fr: "frac m e = (a, b)" by fastforce
  have v: "f64_val x = real a / real b" "0 < b" using frac_val [of m e] fr x by simp_all
  have "real (a div b) * real b \<le> real a"
    by (metis div_times_less_eq_dividend of_nat_le_iff of_nat_mult)
  then have "real (a div b) \<le> real a / real b" using v(2) by (simp add: le_divide_eq)
  moreover have fl: "real a / real b < real (a div b) + 1"
  proof -
    have "a < b * (a div b + 1)" using v(2) by (metis dividend_less_times_div mult.commute add.commute mult_Suc_right Suc_eq_plus1)
    then have "real a < real b * (real (a div b) + 1)" by (metis of_nat_less_iff of_nat_mult of_nat_add of_nat_1)
    then show ?thesis using v(2) by (simp add: divide_less_eq mult.commute)
  qed
  moreover have "a div b < 2 ^ 64"
  proof -
    have "real (a div b) < real (2 ^ 64)" using calculation(1) v(1) assms(2) by simp
    then show ?thesis by (simp only: of_nat_less_iff)
  qed
  then have "unat (u64_of x) = a div b"
    using x fr by (simp add: unsigned_of_nat take_bit_nat_eq_self)
  ultimately show "real (unat (u64_of x)) \<le> f64_val x" "f64_val x < real (unat (u64_of x)) + 1"
    using v by simp_all
qed

lemma approx_bounds:
  assumes "approx k x y" "k \<le> 7"
  shows "y * (1 - 1 / 2 ^ 50) \<le> x" "x \<le> y * (1 + 1 / 2 ^ 50)"
proof -
  have a: "approx 7 x y" using approx_mono assms by blast
  have u: "(1 - ulp) ^ 7 = ((2 ^ 53 - 1) / 2 ^ 53) ^ 7" by (simp add: ulp_def)
  have "1 - 1 / 2 ^ 50 \<le> (1 - ulp) ^ 7" unfolding u by (simp add: power_divide)
  then have "y * (1 - 1 / 2 ^ 50) \<le> y * (1 - ulp) ^ 7"
    using a by (intro mult_left_mono) (simp_all add: approx_def)
  then show "y * (1 - 1 / 2 ^ 50) \<le> x" using a by (simp add: approx_def)
  have "1 \<le> (1 + 1 / 2 ^ 50) * (1 - ulp) ^ 7" unfolding u by (simp add: power_divide)
  then have "x * 1 \<le> x * ((1 + 1 / 2 ^ 50) * (1 - ulp) ^ 7)"
    using approx_nonneg [OF a] by (intro mult_left_mono) simp_all
  also have "\<dots> = (x * (1 - ulp) ^ 7) * (1 + 1 / 2 ^ 50)" by simp
  also have "\<dots> \<le> y * (1 + 1 / 2 ^ 50)" using a by (intro mult_right_mono) (simp_all add: approx_def)
  finally show "x \<le> y * (1 + 1 / 2 ^ 50)" by simp
qed

end
