(* ===== verification/Report.thy ===== *)
theory Report
  imports Controller Float64
begin

text \<open>
  The reports (\<open>netperf-core/src/ui.rs\<close>): the units, the interval lines, the summary with its totals and
  the latency tables. A report is the list of its lines; colours and bold face are left out.
\<close>

section \<open>Formatting of numbers\<close>

definition pad_left :: "nat \<Rightarrow> string \<Rightarrow> string" where
  "pad_left n s = replicate (n - length s) CHR '' '' @ s"

text \<open>\<open>{:.k}\<close>: the exact value of the double is rounded to \<open>k\<close> decimals, ties to even.\<close>

definition decimals :: "nat \<Rightarrow> nat \<Rightarrow> string" where
  "decimals k q =
     (if k = 0 then decimal q
      else decimal (q div 10 ^ k) @ ''.'' @
        (let s = decimal (q mod 10 ^ k) in replicate (k - length s) CHR ''0'' @ s))"

definition scaled_decimal :: "nat \<Rightarrow> nat \<Rightarrow> int \<Rightarrow> nat" where
  "scaled_decimal k m e = (case frac m e of (a, b) \<Rightarrow> round_half_even (a * 10 ^ k) b)"

fun fixed :: "nat \<Rightarrow> f64 \<Rightarrow> string" where
  "fixed k (Fin m e) = decimals k (scaled_decimal k m e)"
| "fixed k Infinite = ''inf''"
| "fixed k NaN = ''NaN''"

text \<open>
  \<open>{}\<close> prints the shortest decimal that reads back as the same double, of those the nearest. It is only used
  for rates below 1000, where the least number of decimals gives it. A double above zero has at most
  1100 decimals.
\<close>

fun shortest :: "nat \<Rightarrow> nat \<Rightarrow> f64 \<Rightarrow> nat \<times> nat \<Rightarrow> string" where
  "shortest 0 k x (a, b) = decimals k (round_half_even (a * 10 ^ k) b)"
| "shortest (Suc fuel) k x (a, b) =
     (let lo = a * 10 ^ k div b; near = round_half_even (a * 10 ^ k) b
      in if rnd near (10 ^ k) = x then decimals k near
         else if rnd lo (10 ^ k) = x then decimals k lo
         else if rnd (Suc lo) (10 ^ k) = x then decimals k (Suc lo)
         else shortest fuel (Suc k) x (a, b))"

fun display :: "f64 \<Rightarrow> string" where
  "display (Fin m e) = shortest 1100 0 (Fin m e) (frac m e)"
| "display Infinite = ''inf''"
| "display NaN = ''NaN''"

section \<open>Units\<close>

definition KBYTES :: u64 where "KBYTES = 1024"
definition MBYTES :: u64 where "MBYTES = 1024 * KBYTES"
definition GBYTES :: u64 where "GBYTES = 1024 * MBYTES"
definition TBYTES :: u64 where "TBYTES = 1024 * GBYTES"
definition KBITS :: u64 where "KBITS = 1000"
definition MBITS :: u64 where "MBITS = 1000 * KBITS"
definition GBITS :: u64 where "GBITS = 1000 * MBITS"
definition TBITS :: u64 where "TBITS = 1000 * GBITS"

definition per :: "u64 \<Rightarrow> u64 \<Rightarrow> string" where
  "per x y = fixed 2 (f64_div (f64_of x) (f64_of y))"

definition humanize_bytes :: "u64 \<Rightarrow> string" where
  "humanize_bytes bytes =
     (if bytes < KBYTES then decimal (unat bytes) @ '' B''
      else if bytes < MBYTES then per bytes KBYTES @ '' KiB''
      else if bytes < GBYTES then per bytes MBYTES @ '' MiB''
      else if bytes < TBYTES then per bytes GBYTES @ '' GiB''
      else per bytes TBYTES @ '' TiB'')"

text \<open>The bits wrap, and all tiers but the first compare the bytes, not the rate.\<close>

definition humanize_bitrate :: "u64 \<Rightarrow> u64 \<Rightarrow> string" where
  "humanize_bitrate bytes duration =
     (let bits = bytes * 8;
          rate = f64_mul (f64_div (f64_of bits) (f64_of duration)) (f64_of 1000)
      in if rate < f64_of KBITS then display rate @ '' Bits/sec''
         else if bytes < MBITS then fixed 2 (f64_div rate (f64_of KBITS)) @ '' Kbits/sec''
         else if bytes < GBITS then fixed 2 (f64_div rate (f64_of MBITS)) @ '' Mbits/sec''
         else if bytes < TBITS then fixed 2 (f64_div rate (f64_of GBITS)) @ '' Gbits/sec''
         else fixed 2 (f64_div rate (f64_of TBITS)) @ '' Tbits/sec'')"

definition humanize_ns :: "u64 \<Rightarrow> string" where
  "humanize_ns ns =
     (if ns < 1000 then decimal (unat ns) @ '' ns''
      else if ns < 1000000 then per ns 1000 @ '' '' @ [CHR 0xC2, CHR 0xB5] @ ''s''
      else if ns < 1000000000 then per ns 1000000 @ '' ms''
      else per ns 1000000000 @ '' s'')"

definition humanize_bps :: "u64 \<Rightarrow> string" where
  "humanize_bps bps =
     (let b = f64_of bps
      in if b < f64_of 1000 then fixed 0 b @ '' bits/sec''
         else if b < f64_of 1000000 then fixed 2 (f64_div b (f64_of 1000)) @ '' Kbits/sec''
         else if b < f64_of 1000000000 then fixed 2 (f64_div b (f64_of 1000000)) @ '' Mbits/sec''
         else fixed 2 (f64_div b (f64_of 1000000000)) @ '' Gbits/sec'')"

section \<open>Lines\<close>

definition print_header :: string where
  "print_header = ''[ ID]   Interval          Transfer      Bitrate''"

definition print_server_banner :: "u16 \<Rightarrow> string list" where
  "print_server_banner port_number =
     [''--------------------------------------'', ''Listening on port '' @ decimal (unat port_number),
      ''--------------------------------------'']"

definition print_stats :: "nat option \<Rightarrow> u64 \<Rightarrow> u64 \<Rightarrow> u64 \<Rightarrow> bool \<Rightarrow> string" where
  "print_stats sid offset_from_start duration bytes is_sender =
     (let end_point = offset_from_start + duration
      in ''['' @ pad_left 3 (case sid of Some i \<Rightarrow> decimal i | None \<Rightarrow> ''SUM'') @ '']   ''
         @ per offset_from_start 1000 @ ''..'' @ per end_point 1000 @ '' sec  ''
         @ humanize_bytes bytes @ ''   '' @ humanize_bitrate bytes duration @ ''        ''
         @ (if is_sender then ''sender'' else ''receiver''))"

definition print_summary_header :: string where
  "print_summary_header = ''ID   Interval          Transfer      Bitrate''"

definition summary_line :: "nat option \<Rightarrow> stream_stats \<Rightarrow> string" where
  "summary_line sid st = print_stats sid 0 (duration_millis st) (bytes_transferred st) (sender st)"

section \<open>The summary\<close>

record totals =
  sender_duration :: u64
  receiver_duration :: u64
  sender_bytes :: u64
  receiver_bytes :: u64

definition no_totals :: totals where
  "no_totals = \<lparr>sender_duration = 0, receiver_duration = 0, sender_bytes = 0, receiver_bytes = 0\<rparr>"

definition add_totals :: "stream_stats \<Rightarrow> totals \<Rightarrow> totals" where
  "add_totals st tot =
     (if sender st
      then tot\<lparr>sender_bytes := sender_bytes tot + bytes_transferred st,
               sender_duration := max (sender_duration tot) (duration_millis st)\<rparr>
      else tot\<lparr>receiver_bytes := receiver_bytes tot + bytes_transferred st,
               receiver_duration := max (receiver_duration tot) (duration_millis st)\<rparr>)"

text \<open>The loop over the local streams; a test in one direction also takes the remote entry of each.\<close>

definition remote_entry :: "test_results \<Rightarrow> direction \<Rightarrow> nat \<Rightarrow> stream_stats option" where
  "remote_entry remote d sid =
     (if d \<noteq> Bidirectional then map_of (results_streams remote) sid else None)"

fun summary_loop ::
    "test_results \<Rightarrow> direction \<Rightarrow> (nat \<times> stream_stats) list \<Rightarrow> string list \<times> totals \<Rightarrow> string list \<times> totals" where
  "summary_loop remote d [] acc = acc"
| "summary_loop remote d ((sid, st) # rest) (out, tot) =
     (let out1 = out @ [summary_line (Some sid) st];
          tot1 = add_totals st tot
      in case remote_entry remote d sid of
           Some st' \<Rightarrow> summary_loop remote d rest (out1 @ [summary_line (Some sid) st'], add_totals st' tot1)
         | None \<Rightarrow> summary_loop remote d rest (out1, tot1))"

definition print_summary :: "test_results \<Rightarrow> test_results \<Rightarrow> direction \<Rightarrow> string list" where
  "print_summary local_results remote_results d =
     (case summary_loop remote_results d (results_streams local_results) ([], no_totals) of
        (out, tot) \<Rightarrow>
          [''- - - - - - - - - - - - - - - - - - - - - - - - - - - - -'', print_summary_header] @ out
          @ (if 1 < length (results_streams local_results)
             then [[], print_stats None 0 (sender_duration tot) (sender_bytes tot) True,
                   print_stats None 0 (receiver_duration tot) (receiver_bytes tot) False]
             else []))"

section \<open>The latency tables\<close>

definition latency_lines :: "nat \<Rightarrow> stream_stats \<Rightarrow> string list" where
  "latency_lines sid st =
     (case latency st of
        None \<Rightarrow> []
      | Some lat \<Rightarrow>
          (let what = (if sender st then ''write-stall  (sender)  '' else ''arrival-gap  (receiver)'');
               d = interval_ns lat;
               t = throughput_bps lat
           in (''['' @ pad_left 3 (decimal sid) @ ''] '' @ what @ ''  min '' @ humanize_ns (dist_min d)
               @ ''  p50 '' @ humanize_ns (p50 d) @ ''  p90 '' @ humanize_ns (p90 d)
               @ ''  p99 '' @ humanize_ns (p99 d) @ ''  p100 '' @ humanize_ns (p100 d)
               @ ''  mean '' @ humanize_ns (mean d))
              # (if 0 < dist_count t
                 then [''      goodput/10ms          min '' @ humanize_bps (dist_min t) @ ''  p50 ''
                       @ humanize_bps (p50 t) @ ''  p99 '' @ humanize_bps (p99 t) @ ''  max ''
                       @ humanize_bps (p100 t) @ ''   [n='' @ decimal (unat (dist_count d)) @ '', clock~''
                       @ humanize_ns (clock_baseline_ns lat) @ '', warmup-drop=''
                       @ decimal (unat (warmup_discarded lat)) @ '']'']
                 else [])))"

definition any_latency :: "test_results \<Rightarrow> bool" where
  "any_latency r = list_ex (\<lambda>(sid, st). latency st \<noteq> None) (results_streams r)"

definition stream_ids :: "test_results \<Rightarrow> test_results \<Rightarrow> nat list" where
  "stream_ids a b = sort (remdups (keys (results_streams a) @ keys (results_streams b)))"

definition print_latency_summary :: "test_results \<Rightarrow> test_results \<Rightarrow> string list" where
  "print_latency_summary loc remote =
     (if \<not> any_latency loc \<and> \<not> any_latency remote then []
      else ''- - - - - - - - - latency under load - - - - - - - - -''
        # concat (map (\<lambda>sid. concat (map (\<lambda>results.
              case map_of (results_streams results) sid of
                None \<Rightarrow> []
              | Some st \<Rightarrow> latency_lines sid st) [loc, remote]))
            (stream_ids loc remote)))"

text \<open>The lines of what a controller prints; \<open>debug\<close> is the derived \<open>Debug\<close> format of a message.\<close>

fun render :: "(server_message \<Rightarrow> string) \<Rightarrow> report \<Rightarrow> string list" where
  "render debug Header = [print_header]"
| "render debug (Summary loc remote d) = print_summary loc remote d"
| "render debug (LatencySummary loc remote) = print_latency_summary loc remote"
| "render debug (UnexpectedMessage m) = [''Received an unexpected message from the server '' @ debug m]"
| "render debug Done = [''netperf Done!'']"

section \<open>Totals\<close>

text \<open>The entries the summary counts, and the lines it prints for them.\<close>

definition counted_with :: "test_results \<Rightarrow> direction \<Rightarrow> nat \<times> stream_stats \<Rightarrow> stream_stats list" where
  "counted_with remote d x =
     (case x of (sid, st) \<Rightarrow>
        st # (case remote_entry remote d sid of
                Some st' \<Rightarrow> [st'] | None \<Rightarrow> []))"

definition lines_with :: "test_results \<Rightarrow> direction \<Rightarrow> nat \<times> stream_stats \<Rightarrow> string list" where
  "lines_with remote d x = map (summary_line (Some (fst x))) (counted_with remote d x)"

lemma summary_loop_eq:
  "summary_loop remote d xs (out, tot)
     = (out @ concat (map (lines_with remote d) xs),
        fold add_totals (concat (map (counted_with remote d) xs)) tot)"
proof (induction xs arbitrary: out tot)
  case (Cons x xs)
  then show ?case
    by (cases x) (simp add: lines_with_def counted_with_def Let_def split: option.split)
qed simp

definition bytes_of :: "bool \<Rightarrow> stream_stats list \<Rightarrow> u64" where
  "bytes_of b es = sum_list (map bytes_transferred (filter (\<lambda>st. sender st = b) es))"

definition longest :: "bool \<Rightarrow> stream_stats list \<Rightarrow> u64" where
  "longest b es = fold max (map duration_millis (filter (\<lambda>st. sender st = b) es)) 0"

lemma fold_max_mset:
  fixes x :: "'a::linorder"
  shows "mset xs = mset ys \<Longrightarrow> fold max xs x = fold max ys x"
  by (rule fun_cong [OF fold_multiset_equiv]) (simp_all add: fun_eq_iff max.left_commute)

lemma fold_add_totals:
  "fold add_totals es tot = \<lparr>sender_duration = fold max (map duration_millis (filter sender es)) (sender_duration tot),
     receiver_duration = fold max (map duration_millis (filter (\<lambda>st. \<not> sender st) es)) (receiver_duration tot),
     sender_bytes = sender_bytes tot + sum_list (map bytes_transferred (filter sender es)),
     receiver_bytes = receiver_bytes tot + sum_list (map bytes_transferred (filter (\<lambda>st. \<not> sender st) es))\<rparr>"
proof (induction es arbitrary: tot)
  case (Cons e es)
  then show ?case by (simp add: add_totals_def max.commute add.assoc)
qed simp

lemma totals_eq:
  "fold add_totals es no_totals = \<lparr>sender_duration = longest True es, receiver_duration = longest False es,
     sender_bytes = bytes_of True es, receiver_bytes = bytes_of False es\<rparr>"
  by (simp add: fold_add_totals no_totals_def longest_def bytes_of_def)

lemma totals_mset:
  assumes "mset es = mset es'"
  shows "bytes_of b es = bytes_of b es'" "longest b es = longest b es'"
proof -
  have "mset (map f (filter P es)) = mset (map f (filter P es'))" for f :: "stream_stats \<Rightarrow> u64" and P
    using assms by simp
  then show "bytes_of b es = bytes_of b es'" "longest b es = longest b es'"
    unfolding bytes_of_def longest_def
    by (metis sum_mset_sum_list) (intro fold_max_mset, simp add: assms)
qed

definition summary_tail :: "test_results \<Rightarrow> direction \<Rightarrow> (nat \<times> stream_stats) list \<Rightarrow> string list" where
  "summary_tail remote d xs =
     (let es = concat (map (counted_with remote d) xs)
      in if 1 < length xs
         then [[], print_stats None 0 (longest True es) (bytes_of True es) True,
               print_stats None 0 (longest False es) (bytes_of False es) False]
         else [])"

lemma print_summary_eq:
  "print_summary loc remote d =
     [''- - - - - - - - - - - - - - - - - - - - - - - - - - - - -'', print_summary_header]
     @ concat (map (lines_with remote d) (results_streams loc)) @ summary_tail remote d (results_streams loc)"
  by (simp add: print_summary_def summary_loop_eq totals_eq summary_tail_def Let_def)

section \<open>Accuracy\<close>

lemma scaled_decimal_error: "\<bar>real (scaled_decimal k m e) - f64_val (Fin m e) * 10 ^ k\<bar> \<le> 1 / 2"
proof -
  obtain a b where fr: "frac m e = (a, b)" by fastforce
  have v: "f64_val (Fin m e) = real a / real b" "0 < b" using frac_val [of m e] fr by simp_all
  have "\<bar>real (round_half_even (a * 10 ^ k) b) - real (a * 10 ^ k) / real b\<bar> \<le> 1 / 2"
    by (rule round_half_even_error [OF v(2)])
  then show ?thesis using fr v(1) by (simp add: scaled_decimal_def)
qed

lemma per_accurate:
  assumes "y \<noteq> 0"
  shows "\<exists>q. per x y = decimals 2 q
    \<and> \<bar>real q / 100 - real (unat x) / real (unat y)\<bar> \<le> 1 / 200 + real (unat x) / real (unat y) / 2 ^ 50"
proof -
  let ?r = "real (unat x) / real (unat y)"
  define v where "v = f64_div (f64_of x) (f64_of y)"
  have "0 < unat y" using assms by (simp add: unat_gt_0)
  then have y: "0 < real (unat y)" by (simp only: of_nat_0_less_iff)
  then have "0 < real (unat y) * (1 - ulp) ^ 1" using ulp_bounds by simp
  then have "0 < f64_val (f64_of y)" using f64_of_approx(2) [of y] by (auto simp: approx_def)
  then have v: "is_fin v" "approx 1 (f64_val v) (f64_val (f64_of x) / f64_val (f64_of y))"
    using f64_div_approx [OF f64_of_approx(1) f64_of_approx(1)] by (simp_all add: v_def)
  have "approx 2 (f64_val (f64_of x) / f64_val (f64_of y)) ?r"
    using approx_divide [OF f64_of_approx(2) f64_of_approx(2) y] by (simp add: numeral_2_eq_2)
  from approx_trans [OF v(2) this] have "approx 3 (f64_val v) ?r" by (simp add: eval_nat_numeral)
  note b = approx_bounds [OF this]
  obtain m e where me: "v = Fin m e" using v(1) by (cases v) auto
  let ?q = "scaled_decimal 2 m e"
  have "per x y = decimals 2 ?q" using me by (simp add: per_def v_def)
  moreover have "\<bar>real ?q / 100 - f64_val v\<bar> \<le> 1 / 200"
  proof -
    have "\<bar>real ?q - f64_val v * 10 ^ 2\<bar> \<le> 1 / 2" unfolding me by (rule scaled_decimal_error)
    then have "\<bar>real ?q - f64_val v * 100\<bar> \<le> 1 / 2" by simp
    then show ?thesis by linarith
  qed
  moreover have "\<bar>f64_val v - ?r\<bar> \<le> ?r / 2 ^ 50" using b by (simp add: abs_le_iff algebra_simps)
  ultimately show ?thesis by (intro exI [of _ ?q]) linarith
qed

section \<open>Properties\<close>

text \<open>
  C38. The last lines of a summary are the totals: of every entry counted, local and, in a test in one
  direction, the remote one of the same stream, the bytes add up on the side of their sender or
  receiver, and the longest duration of each side is taken.
\<close>

theorem summary_totals:
  assumes "1 < length (results_streams loc)"
    and "es = concat (map (counted_with remote d) (results_streams loc))"
  shows "\<exists>ls. print_summary loc remote d = ls @
    [[], print_stats None 0 (fold max (map duration_millis (filter sender es)) 0)
           (sum_list (map bytes_transferred (filter sender es))) True,
         print_stats None 0 (fold max (map duration_millis (filter (\<lambda>st. \<not> sender st) es)) 0)
           (sum_list (map bytes_transferred (filter (\<lambda>st. \<not> sender st) es))) False]"
  using assms by (simp add: print_summary_eq summary_tail_def Let_def longest_def bytes_of_def)

text \<open>
  The summary does not depend on the iteration order of the hash map of the local results: for any two
  orders it has the same lines, and the same totals at its end.
\<close>

theorem summary_order_irrelevant:
  assumes "mset (results_streams loc) = mset (results_streams loc')"
  shows "\<exists>ls ls' tail. print_summary loc remote d = ls @ tail \<and> print_summary loc' remote d = ls' @ tail
    \<and> mset ls = mset ls' \<and> length tail = (if 1 < length (results_streams loc) then 3 else 0)"
proof -
  let ?xs = "results_streams loc" and ?ys = "results_streams loc'"
  let ?hd = "[''- - - - - - - - - - - - - - - - - - - - - - - - - - - - -'', print_summary_header]"
  have concat: "mset (concat (map f ?xs)) = mset (concat (map f ?ys))" for f :: "nat \<times> stream_stats \<Rightarrow> 'a list"
    using arg_cong [OF assms, of "\<lambda>m. \<Sum>\<^sub># (image_mset (mset \<circ> f) m)"]
    by (simp add: mset_concat sum_mset_sum_list [symmetric] multiset.map_comp comp_def flip: mset_map)
  have len: "length ?ys = length ?xs" using assms by (metis size_mset)
  have tail: "summary_tail remote d ?ys = summary_tail remote d ?xs"
    unfolding summary_tail_def Let_def len
    by (simp only: totals_mset [OF concat [of "counted_with remote d"]])
  show ?thesis
  proof (intro exI conjI)
    show "print_summary loc remote d = (?hd @ concat (map (lines_with remote d) ?xs)) @ summary_tail remote d ?xs"
      "print_summary loc' remote d = (?hd @ concat (map (lines_with remote d) ?ys)) @ summary_tail remote d ?xs"
      by (simp_all add: print_summary_eq tail)
    show "mset (?hd @ concat (map (lines_with remote d) ?xs)) = mset (?hd @ concat (map (lines_with remote d) ?ys))"
      using concat [of "lines_with remote d"] by simp
    show "length (summary_tail remote d ?xs) = (if 1 < length ?xs then 3 else 0)"
      by (simp add: summary_tail_def Let_def)
  qed
qed

text \<open>
  C39. The latency tables come in ascending order of the stream numbers, each once, and are the same for
  every iteration order of the two hash maps.
\<close>

theorem latency_summary_canonical:
  assumes "wf_map (results_streams loc)" "wf_map (results_streams remote)"
    and "mset (results_streams loc) = mset (results_streams loc')"
    and "mset (results_streams remote) = mset (results_streams remote')"
  shows "print_latency_summary loc remote = print_latency_summary loc' remote'
    \<and> sorted (stream_ids loc remote) \<and> distinct (stream_ids loc remote)
    \<and> set (stream_ids loc remote) = set (keys (results_streams loc)) \<union> set (keys (results_streams remote))"
proof -
  have same: "map_of (results_streams a) = map_of (results_streams b)" "any_latency a = any_latency b"
      "set (keys (results_streams a)) = set (keys (results_streams b))"
    if "wf_map (results_streams a)" "mset (results_streams a) = mset (results_streams b)" for a b
  proof -
    have st: "set (results_streams a) = set (results_streams b)" using that(2) by (rule mset_eq_setD)
    then show "any_latency a = any_latency b" "set (keys (results_streams a)) = set (keys (results_streams b))"
      by (simp_all add: any_latency_def list_ex_iff)
    have "mset (keys (results_streams a)) = mset (keys (results_streams b))" using that(2) by simp
    then have "distinct (keys (results_streams b))" using that(1) by (metis wf_map_def mset_eq_imp_distinct_iff)
    then show "map_of (results_streams a) = map_of (results_streams b)"
      using that(1) st by (intro map_of_eqI) (auto simp: wf_map_def)
  qed
  note l = same [OF assms(1,3)] and r = same [OF assms(2,4)]
  have "stream_ids loc remote = stream_ids loc' remote'"
    unfolding stream_ids_def by (rule sorted_distinct_set_unique) (simp_all add: l(3) [simplified] r(3) [simplified])
  then have "print_latency_summary loc remote = print_latency_summary loc' remote'"
    by (simp add: print_latency_summary_def l(1,2) r(1,2))
  then show ?thesis by (simp add: stream_ids_def)
qed

text \<open>
  C40. Byte counts of a kibibyte and more are shown in the unit of their magnitude, with two decimals that
  differ from the exact quotient by half a hundredth and a relative error of \<open>2 ^ -50\<close> at most.
\<close>

theorem humanize_bytes_accurate:
  assumes "1024 \<le> unat n"
  shows "\<exists>q k suffix. humanize_bytes n = decimals 2 q @ suffix
    \<and> (k, suffix) \<in> {(1, '' KiB''), (2, '' MiB''), (3, '' GiB''), (4, '' TiB'')}
    \<and> 1024 ^ k \<le> unat n \<and> (k < 4 \<longrightarrow> unat n < 1024 ^ (k + 1))
    \<and> \<bar>real q / 100 - real (unat n) / 1024 ^ k\<bar> \<le> 1 / 200 + real (unat n) / 1024 ^ k / 2 ^ 50"
proof -
  have u: "unat KBYTES = 1024 ^ 1" "unat MBYTES = 1024 ^ 2" "unat GBYTES = 1024 ^ 3" "unat TBYTES = 1024 ^ 4"
    by (simp_all add: KBYTES_def MBYTES_def GBYTES_def TBYTES_def)
  have tier: ?thesis
    if tier: "humanize_bytes n = per n y @ suffix" "unat y = 1024 ^ k"
      "(k, suffix) \<in> {(1, '' KiB''), (2, '' MiB''), (3, '' GiB''), (4, '' TiB'')}"
      "1024 ^ k \<le> unat n" "k < 4 \<longrightarrow> unat n < 1024 ^ (k + 1)" for y k suffix
  proof -
    have "y \<noteq> 0" using tier(2) by auto
    then obtain q where "per n y = decimals 2 q"
        "\<bar>real q / 100 - real (unat n) / 1024 ^ k\<bar> \<le> 1 / 200 + real (unat n) / 1024 ^ k / 2 ^ 50"
      using per_accurate [of y n] tier(2) by auto
    then show ?thesis using tier by (intro exI [of _ q] exI [of _ k] exI [of _ suffix]) simp
  qed
  note h = humanize_bytes_def word_less_nat_alt
  consider "unat n < 1024 ^ 2" | "1024 ^ 2 \<le> unat n" "unat n < 1024 ^ 3" | "1024 ^ 3 \<le> unat n" "unat n < 1024 ^ 4"
    | "1024 ^ 4 \<le> unat n" by linarith
  then show ?thesis
  proof cases
    case 1
    show ?thesis by (rule tier [OF _ u(1), of "'' KiB''"]) (use 1 assms u in \<open>simp_all add: h\<close>)
  next
    case 2
    show ?thesis by (rule tier [OF _ u(2), of "'' MiB''"]) (use 2 u in \<open>simp_all add: h\<close>)
  next
    case 3
    show ?thesis by (rule tier [OF _ u(3), of "'' GiB''"]) (use 3 u in \<open>simp_all add: h\<close>)
  next
    case 4
    show ?thesis by (rule tier [OF _ u(4), of "'' TiB''"]) (use 4 u in \<open>simp_all add: h\<close>)
  qed
qed

text \<open>
  The unit of a bit rate is chosen by the bytes of the interval and not by its rate: half a megabyte in a
  second, 4 Mbit/s, is shown in Kbits, and 200 megabytes in a second, 1.6 Gbit/s, in Mbits.
\<close>

theorem humanize_bitrate_wrong_unit:
  "humanize_bitrate 500000 1000 = ''4000.00 Kbits/sec''
    \<and> humanize_bitrate 200000000 1000 = ''1600.00 Mbits/sec''"
  by (simp add: humanize_bitrate_def f64_of_def f64_eval KBITS_def MBITS_def GBITS_def TBITS_def
      scaled_decimal_def decimals_def decimal.simps char_of_def bit_0)

text \<open>
  An interval without length has no rate: a stream that moved nothing is shown at \<open>NaN\<close>, one that moved
  something at \<open>inf\<close>.
\<close>

theorem zero_duration_rate:
  "humanize_bitrate 0 0 = ''NaN Kbits/sec'' \<and> humanize_bitrate 5 0 = ''inf Kbits/sec''"
  by (simp add: humanize_bitrate_def f64_of_def f64_eval KBITS_def MBITS_def)

definition brief_stats :: "bool \<Rightarrow> u64 \<Rightarrow> stream_stats" where
  "brief_stats b n = \<lparr>sender = b, duration_millis = 1000, bytes_transferred = n, syscalls = 1, latency = None\<rparr>"

definition brief_results :: "(nat \<times> stream_stats) list \<Rightarrow> test_results" where
  "brief_results xs = \<lparr>results_streams = xs\<rparr>"

theorem summary_totals_witness:
  "\<exists>ls. print_summary (brief_results [(0, brief_stats True 100), (1, brief_stats True 50)])
      (brief_results [(1, brief_stats False 40)]) ClientToServer
    = ls @ [[], print_stats None 0 1000 150 True, print_stats None 0 1000 40 False]"
  using summary_totals [OF _ refl, of "brief_results [(0, brief_stats True 100), (1, brief_stats True 50)]"
      "brief_results [(1, brief_stats False 40)]" ClientToServer]
  by (simp add: brief_results_def brief_stats_def counted_with_def remote_entry_def)

theorem summary_order_irrelevant_witness:
  "\<exists>ls ls' tail. print_summary (brief_results [(0, brief_stats True 100), (1, brief_stats False 50)]) test_results_default Bidirectional
      = ls @ tail
    \<and> print_summary (brief_results [(1, brief_stats False 50), (0, brief_stats True 100)]) test_results_default Bidirectional = ls' @ tail
    \<and> mset ls = mset ls' \<and> length tail = 3"
  using summary_order_irrelevant [of "brief_results [(0, brief_stats True 100), (1, brief_stats False 50)]"
      "brief_results [(1, brief_stats False 50), (0, brief_stats True 100)]" test_results_default Bidirectional]
  by (simp add: brief_results_def)

theorem latency_summary_canonical_witness:
  "print_latency_summary (brief_results [(7, brief_stats True 1), (2, brief_stats True 2)]) test_results_default
      = print_latency_summary (brief_results [(2, brief_stats True 2), (7, brief_stats True 1)]) test_results_default
    \<and> sorted (stream_ids (brief_results [(7, brief_stats True 1), (2, brief_stats True 2)]) test_results_default)"
  using latency_summary_canonical [of "brief_results [(7, brief_stats True 1), (2, brief_stats True 2)]" test_results_default
      "brief_results [(2, brief_stats True 2), (7, brief_stats True 1)]" test_results_default]
  by (simp add: brief_results_def test_results_default_def wf_map_def)

theorem humanize_bytes_accurate_witness:
  "\<exists>q k suffix. humanize_bytes 1536 = decimals 2 q @ suffix \<and> 1024 ^ k \<le> (1536 :: nat)
    \<and> \<bar>real q / 100 - 1536 / 1024 ^ k\<bar> \<le> 1 / 200 + 1536 / 1024 ^ k / 2 ^ 50"
proof -
  have u: "unat (1536 :: u64) = 1536" by simp
  then have p: "1024 \<le> unat (1536 :: u64)" by simp
  from humanize_bytes_accurate [OF p] show ?thesis unfolding u of_nat_numeral by blast
qed

end
