(* ===== verification/Program.thy ===== *)
theory Program
  imports Client Report
begin

text \<open>
  \<open>lib.rs\<close> and the head of \<open>run_server\<close>: binding the port, the banner, and the choice between the two
  roles of the program.
\<close>

text \<open>The lines the server prints at its start, the result of its accept loop and the state it ends in.\<close>

definition listen_and_serve ::
    "common_opts \<Rightarrow> io_error + unit \<Rightarrow> inbound list \<Rightarrow> server \<Rightarrow> string list \<times> (any_error + unit) \<times> server" where
  "listen_and_serve common bound inbs srv =
     (case bound of
        Inl e \<Rightarrow> ([], Inl (IoErr e), srv)
      | Inr _ \<Rightarrow> (print_server_banner (port common), run_server inbs srv))"

text \<open>What the network is to either role.\<close>

record surrounding_net =
  net_bind :: "io_error + unit"
  net_inbound :: "inbound list"
  net_uuid :: string
  net_client :: negotiation
  net_env :: env
  net_events :: "(event \<times> env) list"

definition run_program :: "bool \<Rightarrow> common_opts \<Rightarrow> client_opts \<Rightarrow> surrounding_net \<Rightarrow> (any_error + unit) option" where
  "run_program is_server common opts net =
     (if is_server
      then Some (fst (snd (listen_and_serve common (net_bind net) (net_inbound net) server_init)))
      else run_client common opts (net_uuid net) (net_client net) (net_env net) (net_events net))"

lemma run_program_cases:
  "run_program True common opts net = Some (case net_bind net of Inl e \<Rightarrow> Inl (IoErr e)
     | Inr _ \<Rightarrow> fst (run_server (net_inbound net) server_init))"
  "run_program False common opts net
     = run_client common opts (net_uuid net) (net_client net) (net_env net) (net_events net)"
  by (simp_all add: run_program_def listen_and_serve_def split: sum.split)

end
