(* ===== verification/CommandLine.thy ===== *)
theory CommandLine
  imports Program
begin

text \<open>
  \<open>opts.rs\<close> as a whole: the groups declared for the options, what they exclude, and that the roles of the
  program never meet an option they take for granted.
\<close>

section \<open>Options\<close>

record server_opts =
  opt_server :: bool

record opts =
  opts_server :: server_opts
  opts_client :: client_opts
  opts_common :: common_opts

text \<open>
  A group of \<open>clap\<close> accepts at most one of its members, and at least one when it is required. A flag is present
  when it is set, an option when it has a value.
\<close>

definition group_ok :: "bool \<Rightarrow> bool list \<Rightarrow> bool" where
  "group_ok required present \<longleftrightarrow>
     length (filter id present) \<le> 1 \<and> (required \<longrightarrow> list_ex id present)"

definition accepted_opts :: "opts \<Rightarrow> bool" where
  "accepted_opts o2 \<longleftrightarrow>
     group_ok True [opt_server (opts_server o2), opt_client (opts_client o2) \<noteq> None]
     \<and> group_ok False [bidir (opts_client o2), reverse (opts_client o2)]"

text \<open>What the parser fills in for a client that only names its host, and for a bare server.\<close>

definition default_common :: common_opts where
  "default_common = \<lparr>port = 7559, interval = 1\<rparr>"

definition default_client :: "string option \<Rightarrow> client_opts" where
  "default_client host = \<lparr>opt_client = host, opt_length = None, opt_socket_buffers = None, opt_time = 10,
     opt_parallel = 1, bidir = False, reverse = False, opt_latency = False\<rparr>"

definition run_command :: "opts \<Rightarrow> surrounding_net \<Rightarrow> (any_error + unit) option" where
  "run_command o2 net =
     run_program (opt_server (opts_server o2)) (opts_common o2) (opts_client o2) net"

section \<open>Properties\<close>

lemma accepted_cases:
  assumes "accepted_opts o2"
  obtains (server) "opt_server (opts_server o2)" "opt_client (opts_client o2) = None"
  | (client) host where "\<not> opt_server (opts_server o2)" "opt_client (opts_client o2) = Some host"
  using assms by (cases "opt_server (opts_server o2)"; cases "opt_client (opts_client o2)")
    (auto simp: accepted_opts_def group_ok_def)

text \<open>
  C33. An accepted command line picks one role and one direction: the program is a server and no host is
  named, or it is a client of the host that is named, and then the \<open>unwrap\<close> of the host does not panic,
  whatever the network does; the parameters the client asks for are reverse or bidirectional exactly when
  it was told so, and otherwise forward.
\<close>

theorem accepted_options_pick_role:
  assumes "accepted_opts o2"
    and "Inl Panicked \<notin> {neg_hello (net_client net), neg_params (net_client net)}"
    and "neg_welcome (net_client net) \<noteq> Inl Panicked"
  shows "(if opt_server (opts_server o2)
     then opt_client (opts_client o2) = None
       \<and> run_command o2 net = Some (fst (snd (listen_and_serve (opts_common o2) (net_bind net) (net_inbound net) server_init)))
     else run_command o2 net = run_client (opts_common o2) (opts_client o2) (net_uuid net) (net_client net) (net_env net) (net_events net)
       \<and> start_client (opts_common o2) (opts_client o2) (net_uuid net) (net_client net) \<noteq> Inl Panicked)
    \<and> direction (from_opts (opts_client o2) blk) =
        (if reverse (opts_client o2) then ServerToClient else if bidir (opts_client o2) then Bidirectional else ClientToServer)"
proof -
  have "\<not> (bidir (opts_client o2) \<and> reverse (opts_client o2))"
    using assms(1) by (auto simp: accepted_opts_def group_ok_def)
  then have dir: "direction (from_opts (opts_client o2) blk) =
      (if reverse (opts_client o2) then ServerToClient else if bidir (opts_client o2) then Bidirectional else ClientToServer)"
    by (auto simp: from_opts_def)
  show ?thesis
    using assms(1)
  proof (cases rule: accepted_cases)
    case server
    then show ?thesis using dir by (simp add: run_command_def run_program_def)
  next
    case (client host)
    then have "start_client (opts_common o2) (opts_client o2) (net_uuid net) (net_client net) \<noteq> Inl Panicked"
      using assms(2,3) by (auto simp: start_client_def Let_def split: sum.split)
    then show ?thesis using client dir by (simp add: run_command_def run_program_def)
  qed
qed

theorem accepted_options_pick_role_witness:
  "start_client default_common (default_client (Some ''h'')) ''k'' (sample_neg (Inl ClosedByPeer)) \<noteq> Inl Panicked"
proof -
  let ?o = "\<lparr>opts_server = \<lparr>opt_server = False\<rparr>, opts_client = default_client (Some ''h''), opts_common = default_common\<rparr>"
  let ?net = "\<lparr>net_bind = Inr (), net_inbound = [], net_uuid = ''k'', net_client = sample_neg (Inl ClosedByPeer),
      net_env = sample_env sample_stats test_results_default, net_events = []\<rparr>"
  have "accepted_opts ?o" by (simp add: accepted_opts_def group_ok_def default_client_def)
  from accepted_options_pick_role [OF this, of ?net] show ?thesis by (simp add: sample_neg_def)
qed

text \<open>Neither role alone, both roles, and both directions are refused.\<close>

lemma refused_options:
  "\<not> accepted_opts \<lparr>opts_server = \<lparr>opt_server = False\<rparr>, opts_client = default_client None, opts_common = default_common\<rparr>"
  "\<not> accepted_opts \<lparr>opts_server = \<lparr>opt_server = True\<rparr>, opts_client = default_client (Some h), opts_common = default_common\<rparr>"
  "\<not> accepted_opts \<lparr>opts_server = \<lparr>opt_server = False\<rparr>,
     opts_client = (default_client (Some h))\<lparr>bidir := True, reverse := True\<rparr>, opts_common = default_common\<rparr>"
  by (simp_all add: accepted_opts_def group_ok_def default_client_def)

end
