(* ===== verification/UnitTests.thy ===== *)
theory UnitTests
  imports Framing
begin

text \<open>
  The unit tests of \<open>common/control.rs\<close> and \<open>common/net_utils.rs\<close>, over the in-memory buffers they use: a test is
  whether all its assertions hold, and each holds of the model.
\<close>

section \<open>\<open>control.rs\<close>\<close>

text \<open>An error of the operating system and one made by \<open>anyhow!\<close> carry no typed error.\<close>

definition test_error_extraction :: bool where
  "test_error_extraction \<longleftrightarrow>
     to_server_error (Inr () :: any_error + unit) = None
     \<and> to_server_error (Inl (IoErr BrokenPipe) :: any_error + unit) = None
     \<and> to_server_error (Inl NoStartSignal :: any_error + unit) = None
     \<and> to_server_error (Inl (ServerErr (AccessDenied ''Something went wrong!'')) :: any_error + unit)
         = Some (AccessDenied ''Something went wrong!'')
     \<and> to_client_error (Inr () :: any_error + unit) = None
     \<and> to_client_error (Inl (IoErr BrokenPipe) :: any_error + unit) = None
     \<and> to_client_error (Inl NoStartSignal :: any_error + unit) = None
     \<and> to_client_error (Inl (ClientErr (CannotCreateStream ''Something went wrong!'')) :: any_error + unit)
         = Some (CannotCreateStream ''Something went wrong!'')"

lemma test_error_extraction_passes: "test_error_extraction"
  by (simp add: test_error_extraction_def to_server_error_def to_client_error_def)

section \<open>\<open>net_utils.rs\<close>\<close>

record mock_serializable =
  username :: string

definition test_send_control_message ::
    "(mock_serializable \<Rightarrow> byte list option) \<Rightarrow> (byte list \<Rightarrow> mock_serializable option) \<Rightarrow> bool" where
  "test_send_control_message ser de =
     (let obj = \<lparr>username = ''asoli''\<rparr>
      in case send_control_message ser vec_write [] obj of
           (Inl e, buf) \<Rightarrow> False
         | (Inr _, buf) \<Rightarrow>
             length buf = 24 \<and> fst (read_control_message de slice_u32 slice_read buf) = Inr obj)"

definition test_messages ::
    "(server_envelope \<Rightarrow> byte list option) \<Rightarrow> (byte list \<Rightarrow> server_envelope option) \<Rightarrow> bool" where
  "test_messages ser de \<longleftrightarrow>
     (case server_send_message ser vec_write [] Welcome of
        (Inl e, buf) \<Rightarrow> False
      | (Inr _, buf) \<Rightarrow> fst (client_read_message de slice_u32 slice_read buf) = Inr Welcome)
     \<and> (case server_send_error ser vec_write [] (AccessDenied ''Something went wrong'') of
          (Inl e, buf) \<Rightarrow> False
        | (Inr _, buf) \<Rightarrow>
            (let data = fst (client_read_message de slice_u32 slice_read buf)
             in isl data \<and> to_server_error data = Some (AccessDenied ''Something went wrong'')))"

text \<open>A message written to a vector is read back from the slice of its bytes.\<close>

lemma slice_roundtrip:
  assumes "ser m = Some payload" "de payload = Some m" "length payload \<le> 20971520"
  shows "send_control_message ser vec_write [] m = (Inr (), frame payload)
    \<and> fst (read_control_message de slice_u32 slice_read (frame payload)) = Inr m"
proof -
  have "send_control_message ser vec_write [] m = (Inr (), frame payload)"
    using vec.send_control_message_frame [where s = "[]" and ser = ser and m = m and payload = payload] assms(1,3) by simp
  moreover have "fst (read_control_message de slice_u32 slice_read (frame payload)) = Inr m"
    using slice.read_frame [where s = "frame payload" and payload = payload and rest = "[]" and de = de and m = m] assms(2,3) by fastforce
  ultimately show ?thesis ..
qed

text \<open>The JSON text of the test object, \<open>{"username":"asoli"}\<close>, has twenty bytes.\<close>

lemma test_send_control_message_passes:
  assumes "ser \<lparr>username = ''asoli''\<rparr> = Some payload" "de payload = Some \<lparr>username = ''asoli''\<rparr>" "length payload = 20"
  shows "test_send_control_message ser de"
  using slice_roundtrip [of ser "\<lparr>username = ''asoli''\<rparr>" payload de] assms
  by (simp add: test_send_control_message_def frame_def u32_be_def)

lemma test_messages_passes:
  assumes "ser (ServerMessage Welcome) = Some welcome" "de welcome = Some (ServerMessage Welcome)"
    and "ser (ServerEnvelopeError (AccessDenied ''Something went wrong'')) = Some denied"
    and "de denied = Some (ServerEnvelopeError (AccessDenied ''Something went wrong''))"
    and "length welcome \<le> 20971520" "length denied \<le> 20971520"
  shows "test_messages ser de"
proof -
  have w: "send_control_message ser vec_write [] (ServerMessage Welcome) = (Inr (), frame welcome)
    \<and> fst (read_control_message de slice_u32 slice_read (frame welcome)) = Inr (ServerMessage Welcome)"
    by (rule slice_roundtrip) (rule assms)+
  have d: "send_control_message ser vec_write [] (ServerEnvelopeError (AccessDenied ''Something went wrong''))
      = (Inr (), frame denied)
    \<and> fst (read_control_message de slice_u32 slice_read (frame denied))
      = Inr (ServerEnvelopeError (AccessDenied ''Something went wrong''))"
    by (rule slice_roundtrip) (rule assms)+
  have "fst (client_read_message de slice_u32 slice_read (frame welcome)) = Inr Welcome"
    using w by (auto simp: client_read_message_def split: prod.splits)
  moreover have "fst (client_read_message de slice_u32 slice_read (frame denied))
      = Inl (ServerErr (AccessDenied ''Something went wrong''))"
    using d by (auto simp: client_read_message_def split: prod.splits)
  ultimately show ?thesis
    using w d by (simp add: test_messages_def server_send_message_def server_send_error_def to_server_error_def)
qed

end
