(* ===== verification/Worker.thy ===== *)
theory Worker
  imports Controller Float64
begin

text \<open>
  The stream workers (\<open>stream_worker.rs\<close>): from the allocation of the block over the wait for the
  start signal, the biased \<open>select!\<close> loop that moves the data and keeps the statistics, to the result and
  the draining of the socket. The futures a poll finds ready and the clock are inputs.
\<close>

section \<open>Time\<close>

text \<open>
  An \<open>Instant\<close> is the number of nanoseconds the monotonic clock shows, a \<open>Duration\<close> a number of
  nanoseconds. On the wasm targets an instant holds its seconds in a \<open>u64\<close>, so adding to one can
  overflow, which panics; the difference of two instants is cut off at zero.
\<close>

type_synonym instant = nat
type_synonym duration = nat

definition instant_add :: "instant \<Rightarrow> duration \<Rightarrow> instant option" where
  "instant_add t d = (if t + d < 2 ^ 64 * 1000000000 then Some (t + d) else None)"

text \<open>\<open>as_millis().try_into().unwrap()\<close> and \<open>as_nanos() as u64\<close>.\<close>

definition millis :: "duration \<Rightarrow> u64 option" where
  "millis d = (if d div 1000000 < 2 ^ 64 then Some (of_nat (d div 1000000)) else None)"

definition nanos :: "duration \<Rightarrow> u64" where
  "nanos d = of_nat d"

definition as_secs_f64 :: "duration \<Rightarrow> f64" where
  "as_secs_f64 d = f64_add (rnd (d div 1000000000) 1) (f64_div (rnd (d mod 1000000000) 1) (Fin 1000000000 0))"

definition goodput :: "u64 \<Rightarrow> duration \<Rightarrow> u64" where
  "goodput bytes elapsed =
     u64_of (f64_div (f64_mul (f64_of bytes) (Fin 8 0)) (as_secs_f64 elapsed))"

text \<open>
  The clock is read once before and once for each of 256 deltas; the median is the entry at index
  128 of the sorted deltas.
\<close>

definition calibrate_clock :: "instant list \<Rightarrow> u64" where
  "calibrate_clock reads =
     sort (map (\<lambda>(prev, now). nanos (now - prev)) (zip reads (tl reads))) ! (256 div 2)"

section \<open>The state of the loop\<close>

text \<open>A line of \<open>print_stats\<close>: its offset and length in milliseconds, bytes and calls.\<close>

record interval_report =
  offset_millis :: u64
  length_millis :: u64
  interval_bytes :: u64
  interval_syscalls :: u64

record load =
  start_time :: instant
  clock_baseline :: u64
  bytes_moved :: u64
  calls :: u64
  last_tick :: instant
  cur_bytes :: u64
  cur_calls :: u64
  samples :: "u64 list"
  tput :: "u64 list"
  discarded :: u64
  t_prev :: instant
  win_start :: instant
  win_bytes :: u64
  reports :: "interval_report list"

text \<open>
  What the futures of the \<open>select!\<close> answer when it is polled: \<open>None\<close> while one is pending. \<open>clock\<close>
  is what \<open>Instant::now()\<close> returns should the I/O branch read it.
\<close>

record poll =
  deadline_up :: bool
  message :: "worker_message option option"
  ticked :: "instant option"
  io_done :: "(io_error + usize) option"
  clock :: instant

datatype outcome =
    Load load
  | Break load
  | IoFailed load io_error
  | Panic

definition warmup_of :: "test_parameters \<Rightarrow> duration" where
  "warmup_of p = (if 2 < time_seconds p then 1000000000 else 0)"

definition window :: duration where
  "window = 10000000"

definition on_tick :: "instant \<Rightarrow> load \<Rightarrow> outcome" where
  "on_tick tick ld =
     (case (millis (last_tick ld - start_time ld), millis (tick - last_tick ld)) of
        (Some off, Some len) \<Rightarrow>
          Load (ld\<lparr>reports := reports ld @
                    [\<lparr>offset_millis = off, length_millis = len,
                      interval_bytes = cur_bytes ld, interval_syscalls = cur_calls ld\<rparr>],
                 cur_bytes := 0, cur_calls := 0, last_tick := tick\<rparr>)
      | _ \<Rightarrow> Panic)"

text \<open>The instrumentation of a completed read or write of \<open>n\<close> bytes.\<close>

definition measure_io :: "test_parameters \<Rightarrow> u64 \<Rightarrow> instant \<Rightarrow> load \<Rightarrow> load" where
  "measure_io p n now ld0 =
     (let ld = ld0\<lparr>win_bytes := win_bytes ld0 + n\<rparr>;
          win_elapsed = now - win_start ld;
          ld1 = (if window \<le> win_elapsed
                 then ld\<lparr>tput := tput ld @ [goodput (win_bytes ld) win_elapsed],
                         win_start := now, win_bytes := 0\<rparr>
                 else ld);
          ld2 = (if warmup_of p \<le> now - start_time ld1
                 then ld1\<lparr>samples := samples ld1 @
                           [saturating_sub (nanos (now - t_prev ld1)) (clock_baseline ld1)]\<rparr>
                 else ld1\<lparr>discarded := discarded ld1 + 1\<rparr>)
      in ld2\<lparr>t_prev := now\<rparr>)"

definition on_io :: "test_parameters \<Rightarrow> io_error + usize \<Rightarrow> instant \<Rightarrow> load \<Rightarrow> outcome" where
  "on_io p res now ld0 =
     (case res of
        Inl e \<Rightarrow> IoFailed ld0 e
      | Inr n \<Rightarrow>
          (let bytes_count = ucast n;
               ld = ld0\<lparr>cur_bytes := cur_bytes ld0 + bytes_count,
                        bytes_moved := bytes_moved ld0 + bytes_count\<rparr>
           in if 0 < bytes_count
              then (let ld1 = ld\<lparr>calls := calls ld + 1, cur_calls := cur_calls ld + 1\<rparr>
                    in Load (if measure_latency p then measure_io p bytes_count now ld1 else ld1))
              else Break ld))"

text \<open>One poll of the biased \<open>select!\<close>: the first branch that is ready runs.\<close>

definition select_step :: "test_parameters \<Rightarrow> poll \<Rightarrow> load \<Rightarrow> outcome" where
  "select_step p po ld =
     (if deadline_up po then Break ld
      else case message po of
        Some (Some StartLoad) \<Rightarrow> Load ld
      | Some (Some Terminate) \<Rightarrow> Break ld
      | Some None \<Rightarrow> Break ld
      | None \<Rightarrow>
          (case ticked po of
             Some tick \<Rightarrow> on_tick tick ld
           | None \<Rightarrow>
               (case io_done po of
                  Some res \<Rightarrow> on_io p res (clock po) ld
                | None \<Rightarrow> Load ld)))"

fun hot_loop :: "test_parameters \<Rightarrow> poll list \<Rightarrow> load \<Rightarrow> outcome" where
  "hot_loop p [] ld = Load ld"
| "hot_loop p (po # pos) ld =
     (case select_step p po ld of
        Load ld' \<Rightarrow> hot_loop p pos ld'
      | r \<Rightarrow> r)"

section \<open>The worker\<close>

text \<open>
  What a worker meets: random bytes for its buffer, the first message of its channel, the clock
  readings at the start and at the end and of the calibration, the polls of its loop and the reads
  that drain the socket.
\<close>

record surroundings =
  random :: "string + unit"
  signal :: "worker_message option"
  started :: instant
  calibration :: "instant list"
  polls :: "poll list"
  ended :: instant
  drained :: "(io_error + usize) list"

datatype run =
    Returned "any_error + stream_stats" "interval_report list"
  | Crashed
  | Running_load load
  | Draining stream_stats

text \<open>\<open>while self.stream.read(&mut buffer).await? != 0 {}\<close>: \<open>None\<close> when the reads are used up.\<close>

fun drain :: "(io_error + usize) list \<Rightarrow> (io_error + unit) option" where
  "drain [] = None"
| "drain (Inl e # rs) = Some (Inl e)"
| "drain (Inr n # rs) = (if n = 0 then Some (Inr ()) else drain rs)"

text \<open>
  A vector may not exceed \<open>isize::MAX\<close> bytes: \<open>vec!\<close> and \<open>with_capacity\<close> panic above it.
  \<open>saturating_mul\<close> is at \<open>usize\<close>, which is 32 bits wide.
\<close>

definition allocates :: "nat \<Rightarrow> usize \<Rightarrow> bool" where
  "allocates width n \<longleftrightarrow> width * unat n \<le> 2 ^ 31 - 1"

definition saturating_mul :: "usize \<Rightarrow> usize \<Rightarrow> usize" where
  "saturating_mul a b = of_nat (min (unat a * unat b) (2 ^ 32 - 1))"

definition sample_capacity :: "test_parameters \<Rightarrow> usize \<Rightarrow> usize" where
  "sample_capacity p per_second =
     (if measure_latency p then saturating_mul (ucast (time_seconds p)) per_second else 0)"

definition start_load :: "test_parameters \<Rightarrow> surroundings \<Rightarrow> load" where
  "start_load p s =
     \<lparr>start_time = started s,
      clock_baseline = (if measure_latency p then calibrate_clock (calibration s) else 0),
      bytes_moved = 0, calls = 0, last_tick = started s, cur_bytes = 0, cur_calls = 0,
      samples = [], tput = [], discarded = 0, t_prev = started s, win_start = started s,
      win_bytes = 0, reports = []\<rparr>"

definition stats_of :: "stream_worker \<Rightarrow> u64 \<Rightarrow> load \<Rightarrow> stream_stats" where
  "stats_of w ms ld =
     \<lparr>sender = is_sending w, duration_millis = ms, bytes_transferred = bytes_moved ld,
      syscalls = calls ld,
      latency = (if measure_latency (worker_params w)
                 then Some \<lparr>interval_ns = from_samples (samples ld),
                            throughput_bps = from_samples (tput ld),
                            clock_baseline_ns = clock_baseline ld,
                            warmup_discarded = discarded ld\<rparr>
                 else None)\<rparr>"

definition finish :: "stream_worker \<Rightarrow> surroundings \<Rightarrow> load \<Rightarrow> run" where
  "finish w s ld =
     (case millis (ended s - start_time ld) of
        None \<Rightarrow> Crashed
      | Some ms \<Rightarrow>
          (let stats = stats_of w ms ld
           in if is_sending w then Returned (Inr stats) (reports ld)
              else case drain (drained s) of
                     None \<Rightarrow> Draining stats
                   | Some (Inl e) \<Rightarrow> Returned (Inl (IoErr e)) (reports ld)
                   | Some (Inr _) \<Rightarrow> Returned (Inr stats) (reports ld)))"

text \<open>
  The sizes of the socket buffers cannot be set on this platform: the call only warns. It returns the
  warnings it logs.
\<close>

definition configure_stream_socket :: "test_parameters \<Rightarrow> string list \<times> (any_error + unit)" where
  "configure_stream_socket p =
     (case socket_buffers p of
        None \<Rightarrow> ([], Inr ())
      | Some n \<Rightarrow> ([''--socket-buffers is not supported on wasm32-wasip2; ignoring.''], Inr ()))"

lemma configure_stream_socket_ok [simp]: "snd (configure_stream_socket p) = Inr ()"
  by (simp add: configure_stream_socket_def split: option.split)

definition run_worker :: "stream_worker \<Rightarrow> surroundings \<Rightarrow> run" where
  "run_worker w s =
     (let p = worker_params w
      in if \<not> allocates 1 (block_size p) then Crashed
         else case (if is_sending w then random s else Inr ()) of
           Inl e \<Rightarrow> Returned (Inl (RandomFailed e)) []
         | Inr _ \<Rightarrow>
             (case snd (configure_stream_socket p) of
                Inl e \<Rightarrow> Returned (Inl e) []
              | Inr _ \<Rightarrow>
                  (if signal s \<noteq> Some StartLoad then Returned (Inl NoStartSignal) []
                   else if \<not> allocates 8 (sample_capacity p 50000) \<or> \<not> allocates 8 (sample_capacity p 120)
                   then Crashed
                   else if instant_add (started s) (unat (time_seconds p) * 1000000000) = None
                         \<or> instant_add (started s) 1000000000 = None
                   then Crashed
                   else case hot_loop p (polls s) (start_load p s) of
                          Break ld \<Rightarrow> finish w s ld
                        | Load ld \<Rightarrow> Running_load ld
                        | IoFailed ld e \<Rightarrow> Returned (Inl (IoErr e)) (reports ld)
                        | Panic \<Rightarrow> Crashed)))"

text \<open>What the controller gets when it joins the task.\<close>

definition joined :: "run \<Rightarrow> join_outcome option" where
  "joined r = (case r of Returned x _ \<Rightarrow> Some (Joined x) | Crashed \<Rightarrow> Some JoinError | _ \<Rightarrow> None)"

section \<open>The completions of a run\<close>

text \<open>
  The reads and writes a run of the loop accounts for, with the instants at which they completed: those
  of the polls in which nothing else was ready, up to the end of the loop.
\<close>

definition quits :: "poll \<Rightarrow> bool" where
  "quits po \<longleftrightarrow> deadline_up po \<or> message po = Some (Some Terminate) \<or> message po = Some None"

definition moves :: "poll \<Rightarrow> (io_error + usize) option" where
  "moves po = (if message po = None \<and> ticked po = None then io_done po else None)"

fun completions :: "poll list \<Rightarrow> (u64 \<times> instant) list" where
  "completions [] = []"
| "completions (po # pos) =
     (if quits po then []
      else case moves po of
        None \<Rightarrow> completions pos
      | Some (Inl e) \<Rightarrow> []
      | Some (Inr n) \<Rightarrow> (if n = 0 then [] else (ucast n, clock po) # completions pos))"

text \<open>The gaps between completions that the latency samples record.\<close>

fun gap_samples :: "instant \<Rightarrow> duration \<Rightarrow> u64 \<Rightarrow> instant \<Rightarrow> instant list \<Rightarrow> u64 list" where
  "gap_samples start w base prev [] = []"
| "gap_samples start w base prev (t # ts) =
     (if w \<le> t - start then [saturating_sub (nanos (t - prev)) base] else [])
       @ gap_samples start w base t ts"

definition load_of :: "outcome \<Rightarrow> load option" where
  "load_of r = (case r of Load ld \<Rightarrow> Some ld | Break ld \<Rightarrow> Some ld | IoFailed ld e \<Rightarrow> Some ld | Panic \<Rightarrow> None)"

lemma ucast_usize_u64_0 [simp]: "(ucast (n :: usize) :: u64) = 0 \<longleftrightarrow> n = 0"
  by (simp add: unat_eq_0 [symmetric] unat_ucast_up)

lemma select_cases:
  obtains (quit) "quits po" "select_step p po ld = Break ld"
  | (idle) "\<not> quits po" "moves po = None" "ticked po = None \<or> message po \<noteq> None" "select_step p po ld = Load ld"
  | (tick) t where "\<not> quits po" "moves po = None" "ticked po = Some t" "select_step p po ld = on_tick t ld"
  | (io) r where "\<not> quits po" "moves po = Some r" "select_step p po ld = on_io p r (clock po) ld"
proof (cases "deadline_up po")
  case True
  then show ?thesis by (intro quit) (simp_all add: quits_def select_step_def)
next
  case False
  note d = this
  show ?thesis
  proof (cases "message po")
    case (Some m)
    show ?thesis
    proof (cases "m = Some StartLoad")
      case True
      then show ?thesis using Some d by (intro idle) (simp_all add: quits_def moves_def select_step_def)
    next
      case False
      then have "m = None \<or> m = Some Terminate" by (metis option.exhaust worker_message.exhaust)
      then show ?thesis using Some d by (intro quit) (auto simp: quits_def select_step_def)
    qed
  next
    case None
    then show ?thesis
      using d that
      by (cases "ticked po"; cases "io_done po") (auto simp: quits_def moves_def select_step_def)
  qed
qed

lemma measure_io_frame [simp]:
  "bytes_moved (measure_io p n t ld) = bytes_moved ld" "calls (measure_io p n t ld) = calls ld"
  "cur_bytes (measure_io p n t ld) = cur_bytes ld" "cur_calls (measure_io p n t ld) = cur_calls ld"
  "reports (measure_io p n t ld) = reports ld" "start_time (measure_io p n t ld) = start_time ld"
  "clock_baseline (measure_io p n t ld) = clock_baseline ld" "t_prev (measure_io p n t ld) = t"
  "last_tick (measure_io p n t ld) = last_tick ld"
  by (simp_all add: measure_io_def Let_def)

text \<open>What the loop adds to its state for a list of completions.\<close>

definition printed_bytes :: "load \<Rightarrow> u64" where
  "printed_bytes ld = sum_list (map interval_bytes (reports ld)) + cur_bytes ld"

definition printed_calls :: "load \<Rightarrow> u64" where
  "printed_calls ld = sum_list (map interval_syscalls (reports ld)) + cur_calls ld"

definition early :: "test_parameters \<Rightarrow> instant \<Rightarrow> instant list \<Rightarrow> nat" where
  "early p start ts = length (filter (\<lambda>t. t - start < warmup_of p) ts)"

definition follows :: "test_parameters \<Rightarrow> load \<Rightarrow> load \<Rightarrow> (u64 \<times> instant) list \<Rightarrow> bool" where
  "follows p ld ld' cs \<longleftrightarrow>
     bytes_moved ld' = bytes_moved ld + sum_list (map fst cs)
     \<and> calls ld' = calls ld + of_nat (length cs)
     \<and> printed_bytes ld' = printed_bytes ld + sum_list (map fst cs)
     \<and> printed_calls ld' = printed_calls ld + of_nat (length cs)
     \<and> start_time ld' = start_time ld \<and> clock_baseline ld' = clock_baseline ld
     \<and> (if measure_latency p
        then t_prev ld' = last (t_prev ld # map snd cs)
          \<and> samples ld' = samples ld @ gap_samples (start_time ld) (warmup_of p) (clock_baseline ld)
                (t_prev ld) (map snd cs)
          \<and> discarded ld' = discarded ld + of_nat (early p (start_time ld) (map snd cs))
        else samples ld' = samples ld \<and> tput ld' = tput ld \<and> discarded ld' = discarded ld)"

lemma follows_refl [simp]: "follows p ld ld []"
  by (simp add: follows_def early_def)

lemma gap_samples_append:
  "gap_samples start w base prev (xs @ ys)
     = gap_samples start w base prev xs @ gap_samples start w base (last (prev # xs)) ys"
  by (induction xs arbitrary: prev) auto

lemma follows_trans:
  assumes "follows p a b xs" "follows p b c ys"
  shows "follows p a c (xs @ ys)"
proof (cases "measure_latency p")
  case True
  have "last (t_prev a # map snd (xs @ ys)) = last (last (t_prev a # map snd xs) # map snd ys)" by simp
  then show ?thesis
    using assms True by (simp add: follows_def gap_samples_append early_def del: last.simps)
next
  case False
  then show ?thesis using assms by (simp add: follows_def)
qed

lemma follows_tick:
  assumes "on_tick t ld = Load ld'"
  shows "follows p ld ld' []"
  using assms
  by (auto simp: on_tick_def follows_def printed_bytes_def printed_calls_def early_def split: option.splits)

lemma follows_measure:
  assumes "measure_latency p" "ld1 = ld\<lparr>cur_bytes := cur_bytes ld + n, bytes_moved := bytes_moved ld + n,
      calls := calls ld + 1, cur_calls := cur_calls ld + 1\<rparr>"
  shows "follows p ld (measure_io p n t ld1) [(n, t)]"
  unfolding follows_def printed_bytes_def printed_calls_def
  using assms(1) by (simp add: assms(2)) (simp add: measure_io_def Let_def early_def)

lemma follows_io:
  assumes "on_io p (Inr n) t ld = Load ld'"
  shows "n \<noteq> 0 \<and> follows p ld ld' [(ucast n, t)]"
proof -
  let ?ld = "ld\<lparr>cur_bytes := cur_bytes ld + ucast n, bytes_moved := bytes_moved ld + ucast n,
      calls := calls ld + 1, cur_calls := cur_calls ld + 1\<rparr>"
  have "n \<noteq> 0" "ld' = (if measure_latency p then measure_io p (ucast n) t ?ld else ?ld)"
    using assms by (auto simp: on_io_def Let_def word_gt_0 split: if_splits)
  moreover have "follows p ld ?ld [(ucast n, t)]" if "\<not> measure_latency p"
    using that by (simp add: follows_def printed_bytes_def printed_calls_def)
  ultimately show ?thesis using follows_measure [OF _ refl] by auto
qed

lemma hot_loop_follows:
  "load_of (hot_loop p pos ld) = Some ld' \<Longrightarrow> follows p ld ld' (completions pos)"
proof (induction p pos ld rule: hot_loop.induct)
  case (1 p ld)
  then show ?case by (simp add: load_of_def)
next
  case (2 p po pos ld)
  show ?case
  proof (cases rule: select_cases [of po p ld])
    case quit
    then show ?thesis using 2 by (simp add: load_of_def)
  next
    case idle
    then show ?thesis using 2 by simp
  next
    case (tick t)
    show ?thesis
    proof (cases "on_tick t ld")
      case (Load ld1)
      then have "follows p ld1 ld' (completions pos)" using 2 tick by simp
      then show ?thesis using follows_trans [OF follows_tick [OF Load]] tick by simp
    qed (use 2 tick in \<open>auto simp: on_tick_def load_of_def split: option.splits\<close>)
  next
    case (io r)
    show ?thesis
    proof (cases r)
      case (Inl e)
      then show ?thesis using 2 io by (simp add: on_io_def load_of_def)
    next
      case (Inr n)
      show ?thesis
      proof (cases "on_io p r (clock po) ld")
        case (Load ld1)
        then have "follows p ld1 ld' (completions pos)" using 2 io by simp
        then show ?thesis using follows_trans follows_io [of p n "clock po" ld ld1] Load Inr io
          by fastforce
      next
        case (Break ld1)
        then have "n = 0" "ld1 = ld\<lparr>cur_bytes := cur_bytes ld, bytes_moved := bytes_moved ld\<rparr>"
          using Inr by (auto simp: on_io_def Let_def word_gt_0 split: if_splits)
        then show ?thesis using 2 io Inr Break by (simp add: load_of_def)
      qed (use Inr in \<open>auto simp: on_io_def Let_def split: if_splits\<close>)
    qed
  qed
qed

section \<open>Returning\<close>

text \<open>
  A poll that ends the loop: the deadline, a \<open>Terminate\<close> or a closed channel, or a read or write that fails or
  finds the connection closed. \<open>io_failure\<close> is the error of the first such poll, when it is a failed one.
\<close>

definition ends :: "poll \<Rightarrow> bool" where
  "ends po \<longleftrightarrow> quits po \<or> (case moves po of Some (Inl e) \<Rightarrow> True | Some (Inr n) \<Rightarrow> n = 0 | None \<Rightarrow> False)"

fun io_failure :: "poll list \<Rightarrow> io_error option" where
  "io_failure [] = None"
| "io_failure (po # pos) =
     (if \<not> ends po then io_failure pos
      else case (quits po, moves po) of (False, Some (Inl e)) \<Rightarrow> Some e | _ \<Rightarrow> None)"

text \<open>The ticks show instants whose milliseconds fit a \<open>u64\<close>.\<close>

definition ticks_fit :: "poll list \<Rightarrow> bool" where
  "ticks_fit pos \<longleftrightarrow> list_all (\<lambda>po. case ticked po of None \<Rightarrow> True | Some t \<Rightarrow> t < 2 ^ 64 * 1000000) pos"

lemma millis_some: "d < 2 ^ 64 * 1000000 \<Longrightarrow> millis d = Some (of_nat (d div 1000000))"
  by (simp add: millis_def)

lemma on_tick_load:
  assumes "t < 2 ^ 64 * 1000000" "last_tick ld < 2 ^ 64 * 1000000"
  shows "\<exists>ld'. on_tick t ld = Load ld' \<and> last_tick ld' = t"
proof -
  have "millis (last_tick ld - start_time ld) = Some (of_nat ((last_tick ld - start_time ld) div 1000000))"
      "millis (t - last_tick ld) = Some (of_nat ((t - last_tick ld) div 1000000))"
    using assms by (intro millis_some; linarith)+
  then show ?thesis by (simp add: on_tick_def)
qed

lemma on_io_load:
  "n \<noteq> 0 \<Longrightarrow> \<exists>ld'. on_io p (Inr n) t ld = Load ld' \<and> last_tick ld' = last_tick ld"
  by (simp add: on_io_def Let_def word_gt_0)

lemma on_io_close: "on_io p (Inr 0) t ld = Break (ld\<lparr>cur_bytes := cur_bytes ld, bytes_moved := bytes_moved ld\<rparr>)"
  by (simp add: on_io_def)

lemma hot_loop_ends:
  assumes "ticks_fit pos" "list_ex ends pos" "last_tick ld < 2 ^ 64 * 1000000"
  shows "\<exists>ld'. hot_loop p pos ld = (case io_failure pos of None \<Rightarrow> Break ld' | Some e \<Rightarrow> IoFailed ld' e)"
  using assms
proof (induction p pos ld rule: hot_loop.induct)
  case (1 p ld)
  then show ?case by simp
next
  case (2 p po pos ld)
  have fit: "ticks_fit pos" using "2.prems"(1) by (simp add: ticks_fit_def)
  show ?case
  proof (cases rule: select_cases [of po p ld])
    case quit
    then show ?thesis by (simp add: ends_def)
  next
    case idle
    then show ?thesis using 2 fit by (simp add: ends_def)
  next
    case (tick t)
    then obtain ld1 where "on_tick t ld = Load ld1" "last_tick ld1 = t" "t < 2 ^ 64 * 1000000"
      using on_tick_load [of t ld] "2.prems" by (auto simp: ticks_fit_def)
    then show ?thesis using 2 tick fit by (simp add: ends_def)
  next
    case (io r)
    show ?thesis
    proof (cases r)
      case (Inl e)
      then show ?thesis using io by (simp add: ends_def on_io_def)
    next
      case (Inr n)
      then show ?thesis using 2 io fit on_io_load [of n p "clock po" ld] on_io_close [of p "clock po" ld]
        by (cases "n = 0") (auto simp: ends_def)
    qed
  qed
qed

lemma unat_saturating_mul: "unat (saturating_mul a b) = min (unat a * unat b) (2 ^ 32 - 1)"
proof -
  have "take_bit LENGTH(32) (min (unat a * unat b) (2 ^ 32 - 1)) = min (unat a * unat b) (2 ^ 32 - 1)"
    by (rule take_bit_nat_eq_self) simp
  then show ?thesis unfolding saturating_mul_def unsigned_of_nat by (simp only: of_nat_id)
qed

lemma sample_capacity_allocates:
  assumes "measure_latency p \<longrightarrow> unat (time_seconds p) < 5369"
  shows "allocates 8 (sample_capacity p 50000)" "allocates 8 (sample_capacity p 120)"
proof -
  have cap: "allocates 8 (sample_capacity p k)" if "unat k \<le> 50000" for k
  proof (cases "measure_latency p")
    case True
    let ?n = "unat (ucast (time_seconds p) :: usize) * unat k"
    have "unat (ucast (time_seconds p) :: usize) < 5369"
      using assms True by (simp add: unat_ucast_down)
    then have "?n \<le> 5368 * 50000" using that by (intro mult_le_mono) simp_all
    then have n: "?n \<le> 268400000" by simp
    then have "unat (saturating_mul (ucast (time_seconds p)) k) = ?n"
      by (simp add: unat_saturating_mul)
    then show ?thesis using n True by (simp add: allocates_def sample_capacity_def)
  qed (simp add: allocates_def sample_capacity_def)
  show "allocates 8 (sample_capacity p 50000)" "allocates 8 (sample_capacity p 120)"
    by (rule cap; simp)+
qed

section \<open>Windows and the calibration\<close>

lemma as_secs_approx:
  assumes "0 < d"
  shows "is_fin (as_secs_f64 d)" "approx 3 (f64_val (as_secs_f64 d)) (real d / 1000000000)"
    "0 < f64_val (as_secs_f64 d)"
proof -
  define s n where "s = rnd (d div 1000000000) 1" and "n = rnd (d mod 1000000000) 1"
  have s: "is_fin s" "approx 1 (f64_val s) (real (d div 1000000000))"
    and n: "is_fin n" "approx 1 (f64_val n) (real (d mod 1000000000))"
    using approx_rnd [of 1] by (simp_all add: s_def n_def)
  define q where "q = f64_div n (Fin 1000000000 0)"
  have "is_fin q" and q1: "approx 1 (f64_val q) (f64_val n / 1000000000)"
    unfolding q_def using f64_div_approx [OF n(1), of "Fin 1000000000 0"] by simp_all
  have "approx 1 (f64_val n / 1000000000) (real (d mod 1000000000) / 1000000000)"
    using approx_divide [OF n(2) approx_exact [of 1000000000]] by simp
  from approx_trans [OF q1 this] have q: "approx 2 (f64_val q) (real (d mod 1000000000) / 1000000000)"
    by (simp add: numeral_2_eq_2)
  have "approx 2 (f64_val s + f64_val q) (real (d div 1000000000) + real (d mod 1000000000) / 1000000000)"
    by (intro approx_add q approx_mono [OF s(2)]) simp
  moreover have "real (d div 1000000000) + real (d mod 1000000000) / 1000000000 = real d / 1000000000"
  proof -
    have "real d = real (d div 1000000000) * 1000000000 + real (d mod 1000000000)"
      by (metis div_mult_mod_eq of_nat_add of_nat_mult of_nat_numeral)
    then show ?thesis by simp
  qed
  ultimately have sum: "approx 2 (f64_val s + f64_val q) (real d / 1000000000)" by simp
  have eq: "as_secs_f64 d = f64_add s q" by (simp add: as_secs_f64_def s_def q_def n_def)
  show "is_fin (as_secs_f64 d)" unfolding eq by (rule f64_add_approx) fact+
  show a: "approx 3 (f64_val (as_secs_f64 d)) (real d / 1000000000)"
    using approx_trans [OF f64_add_approx(2) [OF s(1) \<open>is_fin q\<close>] sum] by (simp add: eq eval_nat_numeral)
  have "0 < real d / 1000000000 * (1 - ulp) ^ 3" using assms ulp_bounds by simp
  then show "0 < f64_val (as_secs_f64 d)" using a by (simp add: approx_def)
qed

lemma steady_deltas:
  "map (\<lambda>(prev, now). nanos (now - prev)) (zip (map (\<lambda>i. k * i) [0..<257]) (tl (map (\<lambda>i. k * i) [0..<257])))
     = replicate 256 (nanos k)"
proof -
  have "tl (map (\<lambda>i. k * i) [0..<257]) = map (\<lambda>i. k * Suc i) [0..<256]"
    by (rule nth_equalityI) (simp_all add: nth_tl)
  then show ?thesis by (intro nth_equalityI) simp_all
qed

section \<open>Samples\<close>

definition sample_worker :: "bool \<Rightarrow> bool \<Rightarrow> stream_worker" where
  "sample_worker sending measured = \<lparr>worker_id = 0, worker_stream = 1,
     worker_params = (sample_params ClientToServer 1)\<lparr>measure_latency := measured\<rparr>, is_sending = sending\<rparr>"

definition io_poll :: "usize \<Rightarrow> instant \<Rightarrow> poll" where
  "io_poll n t = \<lparr>deadline_up = False, message = None, ticked = None, io_done = Some (Inr n), clock = t\<rparr>"

definition tick_poll :: "instant \<Rightarrow> poll" where
  "tick_poll t = \<lparr>deadline_up = False, message = None, ticked = Some t, io_done = Some (Inr 7), clock = t\<rparr>"

definition last_poll :: poll where
  "last_poll = \<lparr>deadline_up = True, message = None, ticked = None, io_done = Some (Inr 7), clock = 0\<rparr>"

definition broken_poll :: poll where
  "broken_poll = \<lparr>deadline_up = False, message = None, ticked = None, io_done = Some (Inl BrokenPipe), clock = 0\<rparr>"

definition sample_polls :: "poll list" where
  "sample_polls = [io_poll 100 1000000005, tick_poll 1000000010, io_poll 50 1000000020, io_poll 20 1500000020, last_poll, io_poll 9 0]"

definition sample_surroundings :: surroundings where
  "sample_surroundings = \<lparr>random = Inr (), signal = Some StartLoad, started = 10,
     calibration = map (\<lambda>i. 2 * i) [0..<257], polls = sample_polls, ended = 10000000010, drained = [Inr 4, Inr 0]\<rparr>"

lemmas sample_defs = sample_worker_def sample_params_def sample_surroundings_def sample_polls_def io_poll_def
  tick_poll_def last_poll_def

abbreviation measured_params :: test_parameters where
  "measured_params \<equiv> worker_params (sample_worker True True)"

lemma sample_completions:
  "completions sample_polls = [(100, 1000000005), (50, 1000000020), (20, 1500000020)]"
  by (simp add: sample_defs quits_def moves_def)

lemma sample_breaks:
  "\<exists>ld. hot_loop measured_params sample_polls (start_load measured_params sample_surroundings) = Break ld"
  using hot_loop_ends [of sample_polls "start_load measured_params sample_surroundings" measured_params]
  by (simp add: sample_defs quits_def ends_def moves_def ticks_fit_def start_load_def)

lemma sample_calibration: "calibrate_clock (calibration sample_surroundings) = 2"
proof -
  have "calibration sample_surroundings = map (\<lambda>i. 2 * i) [0..<257]" by (simp add: sample_surroundings_def)
  then show ?thesis
    unfolding calibrate_clock_def by (simp only: steady_deltas) (simp add: nanos_def sorted_sort_id)
qed

section \<open>Properties\<close>

text \<open>
  C16. How a worker ends. One that could allocate its buffer (and, when it measures, was asked for less than 5369
  seconds, so that its samples can be allocated too), filled it, and got the start signal ends its loop with the
  first poll that finds the deadline, a \<open>Terminate\<close>, a closed channel, a failed read or write or a closed
  connection. A failed one is what it returns. Otherwise a sender returns its statistics at once, and a
  receiver when the draining of its socket ends, or the error that ends it, and nothing as long as its
  peer goes on sending. The statistics count every byte and every call completed before, and carry latency
  figures exactly when asked to measure.
\<close>

theorem worker_returns:
  assumes "p = worker_params w" "allocates 1 (block_size p)"
    and "measure_latency p \<longrightarrow> unat (time_seconds p) < 5369"
    and "is_sending w \<longrightarrow> random s = Inr ()" "signal s = Some StartLoad"
    and "started s + Suc (unat (time_seconds p)) * 1000000000 < 2 ^ 64 * 1000000"
    and "ticks_fit (polls s)" "list_ex ends (polls s)" "ended s < 2 ^ 64 * 1000000"
  shows "\<exists>stats. sender stats = is_sending w
    \<and> bytes_transferred stats = sum_list (map fst (completions (polls s)))
    \<and> syscalls stats = of_nat (length (completions (polls s)))
    \<and> duration_millis stats = of_nat ((ended s - started s) div 1000000)
    \<and> (latency stats \<noteq> None \<longleftrightarrow> measure_latency p)
    \<and> joined (run_worker w s) =
        (case io_failure (polls s) of
           Some e \<Rightarrow> Some (Joined (Inl (IoErr e)))
         | None \<Rightarrow>
             (if is_sending w then Some (Joined (Inr stats))
              else case drain (drained s) of
                None \<Rightarrow> None
              | Some (Inl e) \<Rightarrow> Some (Joined (Inl (IoErr e)))
              | Some (Inr _) \<Rightarrow> Some (Joined (Inr stats))))"
proof -
  obtain ld where ld: "hot_loop p (polls s) (start_load p s)
      = (case io_failure (polls s) of None \<Rightarrow> Break ld | Some e \<Rightarrow> IoFailed ld e)"
    using hot_loop_ends [OF assms(7,8), of "start_load p s" p] assms(6) by (auto simp: start_load_def)
  then have f: "follows p (start_load p s) ld (completions (polls s))"
    by (intro hot_loop_follows) (simp add: load_of_def split: option.splits)
  obtain x y where "instant_add (started s) (unat (time_seconds p) * 1000000000) = Some x"
      "instant_add (started s) 1000000000 = Some y"
    using assms(6) by (simp add: instant_add_def)
  then have run: "run_worker w s = (case io_failure (polls s) of
      None \<Rightarrow> finish w s ld | Some e \<Rightarrow> Returned (Inl (IoErr e)) (reports ld))"
    using assms(1,2,4,5) ld sample_capacity_allocates [OF assms(3)]
    by (simp add: run_worker_def Let_def split: option.splits)
  have "millis (ended s - start_time ld) = Some (of_nat ((ended s - started s) div 1000000))"
    using f assms(9) by (simp add: follows_def start_load_def millis_some)
  then show ?thesis
    using f assms(1) unfolding run
    by (intro exI [of _ "stats_of w (of_nat ((ended s - started s) div 1000000)) ld"])
      (auto simp: finish_def joined_def stats_of_def follows_def start_load_def Let_def split: option.split sum.split)
qed

theorem worker_returns_witness:
  "(\<exists>stats. joined (run_worker (sample_worker True True) sample_surroundings) = Some (Joined (Inr stats))
      \<and> bytes_transferred stats = 170 \<and> syscalls stats = 3 \<and> duration_millis stats = 10000 \<and> latency stats \<noteq> None)
    \<and> joined (run_worker (sample_worker False True) (sample_surroundings\<lparr>drained := [Inr 4]\<rparr>)) = None
    \<and> joined (run_worker (sample_worker True True) (sample_surroundings\<lparr>polls := [broken_poll]\<rparr>))
        = Some (Joined (Inl (IoErr BrokenPipe)))"
proof (intro conjI)
  have w: "worker_params (sample_worker b m) = (sample_params ClientToServer 1)\<lparr>measure_latency := m\<rparr>"
      "is_sending (sample_worker b m) = b" for b m
    by (simp_all add: sample_worker_def)
  note [simp] = sample_surroundings_def sample_params_def allocates_def DEFAULT_BLOCK_SIZE_def MB_def ticks_fit_def
    ends_def quits_def moves_def broken_poll_def
  have polls: "polls sample_surroundings = sample_polls" "ticks_fit sample_polls" "list_ex ends sample_polls" "io_failure sample_polls = None"
    by (simp_all add: sample_defs)
  have fields: "random sample_surroundings = Inr ()" "signal sample_surroundings = Some StartLoad"
      "started sample_surroundings = 10" "ended sample_surroundings = 10000000010"
    by simp_all
  show "\<exists>stats. joined (run_worker (sample_worker True True) sample_surroundings) = Some (Joined (Inr stats))
      \<and> bytes_transferred stats = 170 \<and> syscalls stats = 3 \<and> duration_millis stats = 10000 \<and> latency stats \<noteq> None"
    using worker_returns [OF refl, of "sample_worker True True" sample_surroundings] polls fields
    by (auto simp: w sample_completions simp del: sample_surroundings_def)
  show "joined (run_worker (sample_worker False True) (sample_surroundings\<lparr>drained := [Inr 4]\<rparr>)) = None"
    using worker_returns [OF refl, of "sample_worker False True" "sample_surroundings\<lparr>drained := [Inr 4]\<rparr>"] polls
    by (auto simp: w)
  show "joined (run_worker (sample_worker True True) (sample_surroundings\<lparr>polls := [broken_poll]\<rparr>)) = Some (Joined (Inl (IoErr BrokenPipe)))"
    using worker_returns [OF refl, of "sample_worker True True" "sample_surroundings\<lparr>polls := [broken_poll]\<rparr>"]
    by (auto simp: w)
qed

text \<open>
  C17. Nothing is lost between the periodic reports and the total: what the lines printed so far show and
  the interval under way add up to the bytes and calls counted.
\<close>

theorem interval_reports_add_up:
  assumes "load_of (hot_loop p pos (start_load p s)) = Some ld"
  shows "sum_list (map interval_bytes (reports ld)) + cur_bytes ld = bytes_moved ld
    \<and> sum_list (map interval_syscalls (reports ld)) + cur_calls ld = calls ld"
  using hot_loop_follows [OF assms] by (simp add: follows_def printed_bytes_def printed_calls_def start_load_def)

theorem interval_reports_add_up_witness:
  "\<exists>ld. hot_loop measured_params sample_polls (start_load measured_params sample_surroundings) = Break ld
     \<and> sum_list (map interval_bytes (reports ld)) + cur_bytes ld = 170"
proof -
  obtain ld where ld: "hot_loop measured_params sample_polls (start_load measured_params sample_surroundings) = Break ld"
    using sample_breaks by blast
  then have l: "load_of (hot_loop measured_params sample_polls (start_load measured_params sample_surroundings)) = Some ld"
    by (simp add: load_of_def)
  have "bytes_moved ld = 170"
    using hot_loop_follows [OF l] by (simp add: follows_def start_load_def sample_completions)
  then show ?thesis using interval_reports_add_up [OF l] ld by simp
qed

text \<open>
  C18. The latency samples are the gaps between consecutive completions from the end of the warm-up on, each
  less the cost of a clock reading and not below zero; the completions before are counted as discarded,
  so samples and discarded together are as many as the calls.
\<close>

theorem latency_samples_are_gaps:
  assumes "load_of (hot_loop p pos (start_load p s)) = Some ld" "measure_latency p"
  shows "samples ld = gap_samples (started s) (warmup_of p) (calibrate_clock (calibration s)) (started s)
      (map snd (completions pos))
    \<and> of_nat (length (samples ld)) + discarded ld = calls ld"
proof -
  have len: "length (gap_samples st (warmup_of p) b prev ts) + early p st ts = length ts" for st b prev ts
    by (induction ts arbitrary: prev) (auto simp: early_def)
  have f: "samples ld = gap_samples (started s) (warmup_of p) (calibrate_clock (calibration s)) (started s)
      (map snd (completions pos))" "discarded ld = of_nat (early p (started s) (map snd (completions pos)))"
      "calls ld = of_nat (length (completions pos))"
    using hot_loop_follows [OF assms(1)] assms(2) by (simp_all add: follows_def start_load_def)
  have "of_nat (length (samples ld)) + discarded ld
      = of_nat (length (samples ld) + early p (started s) (map snd (completions pos)))"
    unfolding f(2) by simp
  then show ?thesis using f len by simp
qed

theorem latency_samples_are_gaps_witness:
  "\<exists>ld. hot_loop measured_params sample_polls (start_load measured_params sample_surroundings) = Break ld
     \<and> samples ld = [13, 499999998] \<and> of_nat (length (samples ld)) + discarded ld = 3"
proof -
  obtain ld where ld: "hot_loop measured_params sample_polls (start_load measured_params sample_surroundings) = Break ld"
    using sample_breaks by blast
  then have l: "load_of (hot_loop measured_params sample_polls (start_load measured_params sample_surroundings)) = Some ld"
    by (simp add: load_of_def)
  have "calls ld = 3"
    using hot_loop_follows [OF l] by (simp add: follows_def start_load_def sample_completions)
  moreover have "measure_latency measured_params" "started sample_surroundings = 10" "warmup_of measured_params = 1000000000"
    by (simp_all add: sample_worker_def sample_surroundings_def warmup_of_def sample_params_def)
  moreover from this have "samples ld = [13, 499999998]"
    using latency_samples_are_gaps [OF l]
    by (simp add: sample_completions sample_calibration saturating_sub_def nanos_def)
  ultimately show ?thesis
    using latency_samples_are_gaps [OF l] ld by (metis)
qed

text \<open>
  On the 32-bit targets the buffer for the latency samples is too large for a vector from 5369 seconds
  on: a measured test of that length ends with a panic of the worker when the load should start.
\<close>

theorem long_latency_test_crashes:
  assumes "measure_latency (worker_params w)"
    and "5369 \<le> unat (time_seconds (worker_params w))" "unat (time_seconds (worker_params w)) < 2 ^ 32"
    and "is_sending w \<longrightarrow> random s = Inr ()" "signal s = Some StartLoad"
  shows "joined (run_worker w s) = Some JoinError"
proof -
  let ?p = "worker_params w"
  let ?n = "unat (ucast (time_seconds ?p) :: usize) * unat (50000 :: usize)"
  have "unat (ucast (time_seconds ?p) :: usize) = unat (time_seconds ?p)"
    using assms(3) by (simp add: unat_ucast_down)
  then have n: "5369 * 50000 \<le> ?n" using assms(2) by simp
  have "unat (saturating_mul (ucast (time_seconds ?p)) 50000) = min ?n (2 ^ 32 - 1)"
    by (simp add: unat_saturating_mul)
  then have "\<not> allocates 8 (sample_capacity ?p 50000)"
    using n assms(1) by (simp add: allocates_def sample_capacity_def)
  then show ?thesis using assms(4,5) by (auto simp: run_worker_def joined_def Let_def)
qed

theorem long_latency_test_crashes_witness:
  "joined (run_worker ((sample_worker True True)\<lparr>worker_params := measured_params\<lparr>time_seconds := 5400\<rparr>\<rparr>)
     sample_surroundings) = Some JoinError"
  by (rule long_latency_test_crashes) (simp_all add: sample_defs)

text \<open>
  C19. The goodput of a window is its bits per second: up to one bit for the truncation and a relative
  error of \<open>2 ^ -50\<close> for the floating-point arithmetic, as long as that rate is below \<open>2 ^ 63\<close>.
\<close>

theorem goodput_accurate:
  assumes "0 < d" "rate = real (unat n) * 8 * 1000000000 / real d" "rate \<le> 2 ^ 63"
  shows "rate * (1 - 1 / 2 ^ 50) - 1 < real (unat (goodput n d))
    \<and> real (unat (goodput n d)) \<le> rate * (1 + 1 / 2 ^ 50)"
proof -
  define bits where "bits = f64_mul (f64_of n) (Fin 8 0)"
  have b: "is_fin bits" "approx 1 (f64_val bits) (f64_val (f64_of n) * 8)"
    using f64_mul_approx [OF f64_of_approx(1), of "Fin 8 0" n] by (simp_all add: bits_def)
  have "approx 1 (f64_val (f64_of n) * 8) (real (unat n) * 8)"
    using approx_mult [OF f64_of_approx(2) approx_exact [of 8]] by simp
  from approx_trans [OF b(2) this] have bits: "approx 2 (f64_val bits) (real (unat n) * 8)"
    by (simp add: numeral_2_eq_2)
  define x where "x = f64_div bits (as_secs_f64 d)"
  note secs = as_secs_approx [OF assms(1)]
  have x: "is_fin x" "approx 1 (f64_val x) (f64_val bits / f64_val (as_secs_f64 d))"
    using f64_div_approx [OF b(1) secs(1,3)] by (simp_all add: x_def)
  have "approx 5 (f64_val bits / f64_val (as_secs_f64 d)) (real (unat n) * 8 / (real d / 1000000000))"
    using approx_divide [OF bits secs(2)] assms(1) by simp
  then have "approx 5 (f64_val bits / f64_val (as_secs_f64 d)) rate" by (simp add: assms(2))
  from approx_trans [OF x(2) this] have "approx 6 (f64_val x) rate" by simp
  note v = approx_bounds [OF this]
  have "f64_val x \<le> 2 ^ 63 * (1 + 1 / 2 ^ 50)"
    using v(2) mult_right_mono [OF assms(3), of "1 + 1 / 2 ^ 50"] by simp
  then have "f64_val x < 2 ^ 64" by simp
  note fl = u64_of_floor [OF x(1) this]
  have g: "goodput n d = u64_of x" by (simp add: goodput_def x_def bits_def)
  show ?thesis
    using v fl unfolding g by simp_all
qed

theorem goodput_accurate_witness:
  "real (unat (goodput 125000 10000000)) \<le> 100000000 * (1 + 1 / 2 ^ 50)"
  using goodput_accurate [of 10000000 100000000 125000] by simp

text \<open>
  The clock baseline is the upper median of the 256 measured deltas: more than half of them are at
  most the baseline, and at most half of them are below any smaller value.
\<close>

theorem calibration_median:
  assumes "length reads = 257" "deltas = map (\<lambda>(prev, now). nanos (now - prev)) (zip reads (tl reads))"
  shows "calibrate_clock reads \<in> set deltas
    \<and> 128 < length (filter (\<lambda>x. x \<le> calibrate_clock reads) deltas)
    \<and> (\<forall>y. y < calibrate_clock reads \<longrightarrow> length (filter (\<lambda>x. x \<le> y) deltas) \<le> 128)"
proof -
  have len: "length (sort deltas) = 256" using assms by simp
  have c: "calibrate_clock reads = sort deltas ! 128" by (simp add: calibrate_clock_def assms(2))
  have "calibrate_clock reads \<in> set deltas"
    unfolding c using nth_mem [of 128 "sort deltas"] len by simp
  moreover have "128 < length (filter (\<lambda>x. x \<le> calibrate_clock reads) deltas)"
    using sorted_count_le_nth [of "sort deltas" 128] len by (simp add: c)
  moreover have "length (filter (\<lambda>x. x \<le> y) deltas) \<le> 128" if "y < calibrate_clock reads" for y
    using sorted_count_le_below [of "sort deltas" 128 y] len that by (simp add: c)
  ultimately show ?thesis by blast
qed

theorem calibration_median_witness:
  "calibrate_clock (map (\<lambda>i. 25 * i) [0..<257]) = 25"
  using calibration_median [OF _ steady_deltas [symmetric]] by (simp add: nanos_def)

end
