(* ===== verification/P3.thy ===== *)
theory P3
  imports Worker
begin

text \<open>
  The native-async build (\<open>netperf-p3\<close>): roles, the little-endian control frames, the write and read
  loops, the cookie at the head of a data connection, and a whole run of the client and of the server.
\<close>

section \<open>Asynchronous results\<close>

text \<open>
  A future that has completed, one that still waits when the inputs are used up, and a panic. \<open>andThen\<close> is
  sequencing by \<open>await\<close>, \<open>both\<close> is \<open>futures::join!\<close>.
\<close>

datatype 'a future = Ready 'a | Pending | Crash

fun andThen :: "'a future \<Rightarrow> ('a \<Rightarrow> 'b future) \<Rightarrow> 'b future" where
  "andThen (Ready x) f = f x"
| "andThen Pending f = Pending"
| "andThen Crash f = Crash"

definition both :: "'a future \<Rightarrow> 'b future \<Rightarrow> ('a \<times> 'b) future" where
  "both a b = (if a = Crash \<or> b = Crash then Crash
               else andThen a (\<lambda>x. andThen b (\<lambda>y. Ready (x, y))))"

fun join_all :: "'a future list \<Rightarrow> 'a list future" where
  "join_all [] = Ready []"
| "join_all (f # fs) = andThen (both f (join_all fs)) (\<lambda>(x, xs). Ready (x # xs))"

section \<open>Directions and parameters\<close>

definition DIR_FORWARD :: byte where "DIR_FORWARD = 0"
definition DIR_REVERSE :: byte where "DIR_REVERSE = 1"
definition DIR_BIDIR :: byte where "DIR_BIDIR = 2"
definition COOKIE_LEN :: nat where "COOKIE_LEN = 8"

record p3_opts =
  p3_server :: bool
  p3_client :: "string option"
  p3_port :: u16
  p3_time :: u64
  p3_length :: usize
  p3_parallel :: u32
  p3_reverse :: bool
  p3_bidir :: bool
  p3_latency :: bool

record p3_params =
  dir :: byte
  secs :: u64
  block :: u64
  streams_wanted :: u32
  p_cookie :: u64
  measure_stalls :: bool

definition direction_of :: "byte \<Rightarrow> direction" where
  "direction_of d =
     (if d = DIR_REVERSE then ServerToClient else if d = DIR_BIDIR then Bidirectional else ClientToServer)"

text \<open>Whether an end sends and whether it receives.\<close>

definition roles :: "byte \<Rightarrow> bool \<Rightarrow> bool \<times> bool" where
  "roles d server =
     (if d = DIR_BIDIR then (True, True)
      else if d = DIR_REVERSE then (server, \<not> server)
      else (\<not> server, server))"

definition dir_of_opts :: "p3_opts \<Rightarrow> byte" where
  "dir_of_opts o3 =
     (if p3_bidir o3 then DIR_BIDIR else if p3_reverse o3 then DIR_REVERSE else DIR_FORWARD)"

section \<open>Streams of bytes\<close>

text \<open>
  What a peer sends, in the pieces in which it arrives; after the last one it has closed its side. A read
  into a buffer of some capacity returns at most that much of the next piece, \<open>None\<close> when the stream
  is dropped.
\<close>

type_synonym chunks = "byte list list"

fun rx_read :: "nat \<Rightarrow> chunks \<Rightarrow> byte list option \<times> chunks" where
  "rx_read cap [] = (None, [])"
| "rx_read cap (c # cs) =
     (if length c \<le> cap then (Some c, cs) else (Some (take cap c), drop cap c # cs))"

definition size_of :: "chunks \<Rightarrow> nat" where
  "size_of cs = sum_list (map (\<lambda>c. Suc (length c)) cs)"

lemma rx_read_decreases:
  "rx_read cap cs = (Some b, cs') \<Longrightarrow> 0 < cap \<or> concat cs = [] \<Longrightarrow> size_of cs' < size_of cs"
  by (cases cs) (auto simp: size_of_def split: if_splits)

lemma rx_read_contents:
  "rx_read cap cs = (Some b, cs') \<Longrightarrow> b @ concat cs' = concat cs"
  by (cases cs) (auto split: if_splits)

lemma rx_read_None: "rx_read cap cs = (None, cs') \<longleftrightarrow> cs = [] \<and> cs' = []"
  by (cases cs) auto

section \<open>Control frames\<close>

definition send_msg :: "('m \<Rightarrow> byte list option) \<Rightarrow> 'm \<Rightarrow> byte list" where
  "send_msg enc msg =
     (let json = (case enc msg of Some j \<Rightarrow> j | None \<Rightarrow> [])
      in u32_le (of_nat (length json)) @ json)"

text \<open>
  What the loop does once the buffer \<open>acc\<close> holds a header and enough bytes: \<open>4 + len\<close> is computed in \<open>usize\<close>
  and wraps, and then the slice has its start behind its end and panics.
\<close>

definition try_decode :: "(byte list \<Rightarrow> 'm option) \<Rightarrow> byte list \<Rightarrow> 'm option future option" where
  "try_decode dec acc =
     (if length acc < 4 then None
      else (let len = le_u32 (take 4 acc); end_pos = 4 + len
            in if length acc < unat end_pos then None
               else if unat end_pos < 4 then Some Crash
               else Some (Ready (dec (drop 4 (take (unat end_pos) acc))))))"

function recv_loop :: "(byte list \<Rightarrow> 'm option) \<Rightarrow> byte list \<Rightarrow> chunks \<Rightarrow> 'm option future" where
  "recv_loop dec acc cs =
     (case try_decode dec acc of
        Some r \<Rightarrow> r
      | None \<Rightarrow>
          (case rx_read 8192 cs of
             (Some b, cs') \<Rightarrow> recv_loop dec (acc @ b) cs'
           | (None, _) \<Rightarrow> Ready None))"
  by pat_completeness auto
termination
  by (relation "measure (\<lambda>(dec, acc, cs). size_of cs)")
    (simp_all add: rx_read_decreases [OF sym])

declare recv_loop.simps [simp del]

definition recv_msg :: "(byte list \<Rightarrow> 'm option) \<Rightarrow> chunks \<Rightarrow> 'm option future" where
  "recv_msg dec cs = recv_loop dec [] cs"

section \<open>The data loops\<close>

text \<open>
  One round of the write loop: what \<open>start.elapsed()\<close> shows at its check, how many bytes of the buffer
  \<open>write_all\<close> gets rid of before the reader is gone (all of them while it is not), and how long that takes.
\<close>

record write_round =
  elapsed :: duration
  accepted :: nat
  stall :: duration

fun write_loop :: "nat \<Rightarrow> duration \<Rightarrow> bool \<Rightarrow> write_round list \<Rightarrow> nat \<Rightarrow> u64 \<Rightarrow> u64 list
    \<Rightarrow> (u64 \<times> u64 list) future" where
  "write_loop blk dur measured [] buf moved smps = Pending"
| "write_loop blk dur measured (r # rs) buf moved smps =
     (if dur \<le> elapsed r then Ready (moved, smps)
      else (let leftover = buf - accepted r;
                smps' = (if measured then smps @ [nanos (stall r)] else smps);
                wrote = blk - leftover;
                moved' = moved + of_nat wrote;
                buf' = (if leftover = 0 then blk else leftover)
            in if wrote = 0 then Ready (moved', smps')
               else write_loop blk dur measured rs buf' moved' smps'))"

definition write_data :: "usize \<Rightarrow> u64 \<Rightarrow> bool \<Rightarrow> write_round list \<Rightarrow> duration \<Rightarrow> stream_stats future" where
  "write_data blk seconds measured rounds took =
     (if \<not> allocates 1 blk then Crash
      else andThen (write_loop (unat blk) (unat seconds * 1000000000) measured rounds (unat blk) 0 [])
        (\<lambda>(moved, smps). Ready
          \<lparr>sender = True, duration_millis = of_nat (took div 1000000), bytes_transferred = moved,
           syscalls = 0,
           latency = (if measured
                      then Some \<lparr>interval_ns = from_samples smps, throughput_bps = dist_default,
                                 clock_baseline_ns = 0, warmup_discarded = 0\<rparr>
                      else None)\<rparr>))"

text \<open>
  A read may complete with no bytes. One into a buffer without capacity takes none of those that have
  arrived, so the loop turns for ever once there are some; it ends when the peer just closes.
\<close>

function read_loop :: "nat \<Rightarrow> chunks \<Rightarrow> u64 \<Rightarrow> u64 future" where
  "read_loop cap cs moved =
     (if cap = 0 \<and> concat cs \<noteq> [] then Pending
      else case rx_read cap cs of
        (Some b, cs') \<Rightarrow> read_loop cap cs' (moved + of_nat (length b))
      | (None, _) \<Rightarrow> Ready moved)"
  by pat_completeness auto
termination
  by (relation "measure (\<lambda>(cap, cs, moved). size_of cs)")
    (auto intro: rx_read_decreases [OF sym])

declare read_loop.simps [simp del]

definition read_data :: "usize \<Rightarrow> u64 \<Rightarrow> chunks \<Rightarrow> duration \<Rightarrow> stream_stats future" where
  "read_data blk init_total cs took =
     (if \<not> allocates 1 blk then Crash
      else andThen (read_loop (unat blk) cs init_total)
        (\<lambda>moved. Ready
          \<lparr>sender = False, duration_millis = of_nat (took div 1000000), bytes_transferred = moved,
           syscalls = 0, latency = None\<rparr>))"

text \<open>
  The bytes the rounds of a writer get rid of. \<open>send_all\<close> opens a stream to the peer and sends on it: it gives
  the bytes that go out beside the statistics. On receiving, the other half of the connection is only awaited.
\<close>

fun written :: "nat \<Rightarrow> duration \<Rightarrow> write_round list \<Rightarrow> nat \<Rightarrow> nat" where
  "written blk dur [] buf = 0"
| "written blk dur (r # rs) buf =
     (if dur \<le> elapsed r then 0
      else (let leftover = buf - accepted r
            in min (accepted r) buf
               + (if blk - leftover = 0 then 0
                  else written blk dur rs (if leftover = 0 then blk else leftover))))"

definition send_all ::
    "usize \<Rightarrow> u64 \<Rightarrow> bool \<Rightarrow> write_round list \<Rightarrow> duration \<Rightarrow> nat \<times> stream_stats future" where
  [simp]: "send_all blk seconds measured rounds took =
     (written (unat blk) (unat seconds * 1000000000) rounds (unat blk),
      write_data blk seconds measured rounds took)"

definition recv_all :: "usize \<Rightarrow> chunks \<Rightarrow> duration \<Rightarrow> stream_stats future" where
  [simp]: "recv_all blk cs took = read_data blk 0 cs took"

section \<open>Data connections\<close>

text \<open>
  What one end of a data connection meets: the bytes its peer sends, its rounds of writing, and how long
  its two loops take.
\<close>

record conn =
  incoming :: chunks
  rounds :: "write_round list"
  send_took :: duration
  recv_took :: duration

text \<open>
  The cookie is written before the data and its result is ignored; the receiving client keeps its sending
  side open and returns when its own reads end. An end that does neither returns nothing.
\<close>

definition client_conn ::
    "bool \<Rightarrow> bool \<Rightarrow> usize \<Rightarrow> u64 \<Rightarrow> bool \<Rightarrow> conn \<Rightarrow> stream_stats list future" where
  "client_conn send_data recv_data blk seconds measured c =
     (let writer = write_data blk seconds measured (rounds c) (send_took c);
          reader = recv_all blk (incoming c) (recv_took c)
      in if send_data then
           (if recv_data then andThen (both writer reader) (\<lambda>(s, r). Ready [s, r])
            else andThen writer (\<lambda>s. Ready [s]))
         else if recv_data then andThen reader (\<lambda>r. Ready [r])
         else Ready [])"

function cookie_loop :: "nat \<Rightarrow> byte list \<Rightarrow> chunks \<Rightarrow> byte list \<times> chunks" where
  "cookie_loop cap acc cs =
     (if COOKIE_LEN \<le> length acc \<or> cap = 0 then (acc, cs)
      else case rx_read cap cs of
        (Some b, cs') \<Rightarrow> cookie_loop cap (acc @ b) cs'
      | (None, cs') \<Rightarrow> (acc, cs'))"
  by pat_completeness auto
termination
  by (relation "measure (\<lambda>(cap, acc, cs). size_of cs)")
    (simp_all add: rx_read_decreases [OF sym])

declare cookie_loop.simps [simp del]

text \<open>
  The end of the server: what it sends (\<open>None\<close> when it never opens a stream to the client) and what it
  returns. A connection without the cookie is dropped before anything is sent on it.
\<close>

record server_end =
  outgoing :: "nat option"
  collected :: "stream_stats list future"

definition server_conn ::
    "byte list \<Rightarrow> bool \<Rightarrow> bool \<Rightarrow> usize \<Rightarrow> u64 \<Rightarrow> bool \<Rightarrow> conn \<Rightarrow> server_end" where
  "server_conn expected recv_data send_data blk seconds measured c =
     (if \<not> allocates 1 blk then \<lparr>outgoing = None, collected = Crash\<rparr>
      else case cookie_loop (max (unat blk) COOKIE_LEN) [] (incoming c) of
        (acc, rx) \<Rightarrow>
          (if length acc < COOKIE_LEN \<or> take COOKIE_LEN acc \<noteq> expected
           then \<lparr>outgoing = None, collected = Ready []\<rparr>
           else (let leftover = of_nat (length acc - COOKIE_LEN);
                     (sent, writer) = send_all blk seconds measured (rounds c) (send_took c);
                     reader = read_data blk leftover rx (recv_took c)
                 in if recv_data then
                      (if send_data
                       then \<lparr>outgoing = Some sent, collected = andThen (both reader writer) (\<lambda>(r, s). Ready [s, r])\<rparr>
                       else \<lparr>outgoing = None, collected = andThen reader (\<lambda>r. Ready [r])\<rparr>)
                    else if send_data
                    then \<lparr>outgoing = Some sent, collected = andThen writer (\<lambda>s. Ready [s])\<rparr>
                    else \<lparr>outgoing = None, collected = Ready []\<rparr>)))"

definition run_streams ::
    "conn list \<Rightarrow> bool \<Rightarrow> byte list \<Rightarrow> bool \<Rightarrow> bool \<Rightarrow> usize \<Rightarrow> u64 \<Rightarrow> bool
      \<Rightarrow> stream_stats list future" where
  "run_streams conns is_server ck sending receiving blk seconds measured =
     andThen (join_all (map (\<lambda>c. if is_server
           then collected (server_conn ck receiving sending blk seconds measured c)
           else client_conn sending receiving blk seconds measured c) conns))
       (\<lambda>rs. Ready (concat rs))"

definition to_results :: "stream_stats list \<Rightarrow> test_results" where
  "to_results xs = \<lparr>results_streams = enumerate 0 xs\<rparr>"

section \<open>A run of the program\<close>

definition u64_le :: "u64 \<Rightarrow> byte list" where
  "u64_le w = map (\<lambda>i. ucast (drop_bit (8 * i) w)) [0..<8]"

definition le_u64 :: "byte list \<Rightarrow> u64" where
  "le_u64 bs = fold (\<lambda>b acc. push_bit 8 acc OR ucast b) (rev bs) 0"

text \<open>
  The network of a server: whether it can listen, what its first connection sends, and the connections
  after it. Every error is \<open>Err(())\<close>. The result is the frame it answers with.
\<close>

record server_net =
  listening :: bool
  control_in :: "chunks option"
  data_conns :: "conn list"

definition run_p3_server ::
    "(byte list \<Rightarrow> p3_params option) \<Rightarrow> (test_results \<Rightarrow> byte list option) \<Rightarrow> server_net
      \<Rightarrow> (unit + byte list) future" where
  "run_p3_server dec enc net =
     (if \<not> listening net then Ready (Inl ())
      else case control_in net of
        None \<Rightarrow> Ready (Inl ())
      | Some ctrl \<Rightarrow>
          andThen (recv_msg dec ctrl) (\<lambda>m. case m of
            None \<Rightarrow> Ready (Inl ())
          | Some p \<Rightarrow>
              (case roles (dir p) True of
                 (sending, receiving) \<Rightarrow>
                   (if length (data_conns net) < unat (streams_wanted p) then Ready (Inl ())
                    else andThen (run_streams (take (unat (streams_wanted p)) (data_conns net)) True
                             (u64_le (p_cookie p)) sending receiving (ucast (block p)) (secs p)
                             (measure_stalls p))
                      (\<lambda>local. Ready (Inr (send_msg enc (to_results local))))))))"

text \<open>
  \<open>Ipv4Addr::from_str\<close>: four decimal numbers up to 255 between dots, each of at most three digits and without
  a leading zero.
\<close>

type_synonym ipv4 = "byte \<times> byte \<times> byte \<times> byte"

fun split_dots :: "string \<Rightarrow> string list" where
  "split_dots [] = [[]]"
| "split_dots (c # cs) =
     (if c = CHR ''.'' then [] # split_dots cs
      else (case split_dots cs of [] \<Rightarrow> [[c]] | w # ws \<Rightarrow> (c # w) # ws))"

definition octet :: "string \<Rightarrow> byte option" where
  "octet w =
     (let digit = (\<lambda>c. of_char c - (48 :: nat)); n = foldl (\<lambda>n c. 10 * n + digit c) 0 w
      in if w = [] \<or> 3 < length w \<or> (1 < length w \<and> hd w = CHR ''0'')
            \<or> \<not> list_all (\<lambda>c. 48 \<le> (of_char c :: nat) \<and> (of_char c :: nat) < 58) w \<or> 255 < n
         then None else Some (of_nat n))"

definition ipv4_from_str :: "string \<Rightarrow> ipv4 option" where
  "ipv4_from_str host =
     (case map octet (split_dots host) of
        [Some a, Some b, Some c, Some d] \<Rightarrow> Some (a, b, c, d)
      | _ \<Rightarrow> None)"

text \<open>
  The network of a client: the random bytes, which address takes the control connection, the data
  connections (\<open>None\<close> for one that fails) and the server's answer. The result is what it prints.
\<close>

record client_net =
  random_cookie :: "byte list option"
  ctrl_connects :: "ipv4 \<Rightarrow> u16 \<Rightarrow> bool"
  dialled :: "conn option list"
  answer :: chunks

definition client_params :: "p3_opts \<Rightarrow> byte list \<Rightarrow> p3_params" where
  "client_params o3 cb =
     \<lparr>dir = dir_of_opts o3, secs = p3_time o3, block = ucast (p3_length o3),
      streams_wanted = p3_parallel o3, p_cookie = le_u64 cb, measure_stalls = p3_latency o3\<rparr>"

definition run_p3_client ::
    "(byte list \<Rightarrow> test_results option) \<Rightarrow> p3_opts \<Rightarrow> client_net \<Rightarrow> (unit + report list) future" where
  "run_p3_client dec o3 net =
     (case ipv4_from_str (case p3_client o3 of Some host \<Rightarrow> host | None \<Rightarrow> ''127.0.0.1'') of
        None \<Rightarrow> Ready (Inl ())
      | Some addr \<Rightarrow>
          (case random_cookie net of
             None \<Rightarrow> Ready (Inl ())
           | Some cb \<Rightarrow>
               (if \<not> ctrl_connects net addr (p3_port o3) then Ready (Inl ())
                else let datas = take (unat (p3_parallel o3)) (dialled net)
                     in if None \<in> set datas \<or> length datas < unat (p3_parallel o3) then Ready (Inl ())
                        else case roles (dir_of_opts o3) False of
                          (sending, receiving) \<Rightarrow>
                            andThen (run_streams (map the datas) False cb sending receiving (p3_length o3)
                                       (p3_time o3) (p3_latency o3)) (\<lambda>xs.
                              let loc = to_results xs
                              in andThen (recv_msg dec (answer net)) (\<lambda>m.
                                   let remote = (case m of Some r \<Rightarrow> r | None \<Rightarrow> test_results_default)
                                   in Ready (Inr (Summary loc remote (direction_of (dir_of_opts o3))
                                        # (if p3_latency o3 then [LatencySummary loc remote] else []))))))))"

text \<open>One program is both ends; the option \<open>--server\<close> decides.\<close>

definition run_p3 ::
    "(byte list \<Rightarrow> p3_params option) \<Rightarrow> (test_results \<Rightarrow> byte list option) \<Rightarrow> (byte list \<Rightarrow> test_results option)
      \<Rightarrow> p3_opts \<Rightarrow> server_net \<Rightarrow> client_net \<Rightarrow> (unit + byte list + report list) future" where
  "run_p3 dec_params enc dec o3 snet cnet =
     (if p3_server o3 then andThen (run_p3_server dec_params enc snet) (\<lambda>r. Ready (map_sum id Inl r))
      else andThen (run_p3_client dec o3 cnet) (\<lambda>r. Ready (map_sum id Inr r)))"

end
