(* ===== verification/P3Fair.thy ===== *)
theory P3Fair
  imports P3
begin

text \<open>
  Fairness between the data streams of the native-async build: the data loops at the level of polls, with
  \<open>yield_now\<close> and the sweep with which \<open>join_all\<close> coming its futures.
\<close>

section \<open>Polls\<close>

text \<open>
  \<open>yield_now\<close> is pending once: its flag is set by the first poll, which also wakes the task, and the second
  poll finds it ready.
\<close>

definition yield_poll :: "bool \<Rightarrow> bool \<times> bool" where
  "yield_poll yielded = (if yielded then (True, True) else (True, False))"


text \<open>
  What polling the write of a block gives: it completes after some time, it is still pending, or the reader
  is gone and nothing was written.
\<close>

datatype poll_result = Completes nat | Stalls | Gone

text \<open>
  A write loop stands at the check of its clock, inside a write, or inside \<open>yield_now\<close>. It starts its clock when it is
  polled first.
\<close>

datatype loop_point = Check | Inside | Yielding bool

record write_task =
  point_at :: loop_point
  began :: "nat option"
  coming :: "poll_result list"
  blocks :: nat
  finished :: bool

definition task_init :: "poll_result list \<Rightarrow> write_task" where
  "task_init ps = \<lparr>point_at = Check, began = None, coming = ps, blocks = 0, finished = False\<rparr>"

text \<open>One poll of the loop of \<open>write_data\<close>: it runs until something is pending.\<close>

function poll_loop :: "bool \<Rightarrow> nat \<Rightarrow> nat \<Rightarrow> nat \<Rightarrow> write_task \<Rightarrow> nat \<times> write_task" where
  "poll_loop fair dur start now t =
     (case point_at t of
        Check \<Rightarrow>
          if now - start < dur then poll_loop fair dur start now (t\<lparr>point_at := Inside\<rparr>)
          else (now, t\<lparr>finished := True\<rparr>)
      | Inside \<Rightarrow>
          (case coming t of
             [] \<Rightarrow> (now, t)
           | Stalls # ps \<Rightarrow> (now, t\<lparr>coming := ps\<rparr>)
           | Gone # ps \<Rightarrow> (now, t\<lparr>coming := ps, finished := True\<rparr>)
           | Completes d # ps \<Rightarrow>
               poll_loop fair dur start (now + d) (t\<lparr>coming := ps, blocks := Suc (blocks t),
                 point_at := (if fair then Yielding False else Check)\<rparr>))
      | Yielding yielded \<Rightarrow>
          (case yield_poll yielded of
             (flag, ready) \<Rightarrow>
               if ready then poll_loop fair dur start now (t\<lparr>point_at := Check\<rparr>)
               else (now, t\<lparr>point_at := Yielding flag\<rparr>)))"
  by pat_completeness auto
termination
  by (relation "measure (\<lambda>(fair, dur, start, now, t). 4 * length (coming t)
      + (case point_at t of Inside \<Rightarrow> 0 | Check \<Rightarrow> 1 | Yielding y \<Rightarrow> 2))")
    (auto split: if_splits)

declare poll_loop.simps [simp del]

definition poll_task :: "bool \<Rightarrow> nat \<Rightarrow> nat \<Rightarrow> write_task \<Rightarrow> nat \<times> write_task" where
  "poll_task fair dur now t =
     (let start = (case began t of None \<Rightarrow> now | Some s \<Rightarrow> s)
      in if finished t then (now, t) else poll_loop fair dur start now (t\<lparr>began := Some start\<rparr>))"

text \<open>
  A poll of \<open>join_all\<close> polls those of its futures that have not completed, in order (so for up to thirty
  of them); it is polled again when one has woken it.
\<close>

fun sweep :: "bool \<Rightarrow> nat \<Rightarrow> nat \<Rightarrow> write_task list \<Rightarrow> nat \<times> write_task list" where
  "sweep fair dur now [] = (now, [])"
| "sweep fair dur now (t # ts) =
     (case poll_task fair dur now t of (now', t') \<Rightarrow>
        (case sweep fair dur now' ts of (now'', ts') \<Rightarrow> (now'', t' # ts')))"

fun sweeps :: "bool \<Rightarrow> nat \<Rightarrow> nat \<Rightarrow> nat \<Rightarrow> write_task list \<Rightarrow> nat \<times> write_task list" where
  "sweeps fair dur 0 now ts = (now, ts)"
| "sweeps fair dur (Suc n) now ts = (case sweep fair dur now ts of (now', ts') \<Rightarrow> sweeps fair dur n now' ts')"

section \<open>With yielding\<close>

definition ready_all :: "poll_result list \<Rightarrow> bool" where
  "ready_all ps \<longleftrightarrow> list_all (\<lambda>p. \<exists>d. p = Completes d) ps"










section \<open>Without yielding\<close>

text \<open>How long the first \<open>k\<close> writes of a loop take.\<close>

definition spends :: "poll_result list \<Rightarrow> nat" where
  "spends ps = sum_list (map (\<lambda>p. case p of Completes d \<Rightarrow> d | _ \<Rightarrow> 0) ps)"

lemma ready_replicate [simp]: "ready_all (replicate n (Completes d))"
  by (simp add: ready_all_def list_all_iff)

lemma spends_replicate [simp]: "spends (replicate n (Completes d)) = n * d"
  by (simp add: spends_def sum_list_replicate)

text \<open>A loop that does not yield and whose writes are ready runs until its time is up.\<close>

lemma poll_unfair:
  assumes "ready_all (coming t)" "start \<le> now" "start + dur \<le> now + spends (coming t)" "point_at t = Check"
  shows "\<exists>now' t'. poll_loop False dur start now t = (now', t') \<and> finished t' \<and> start + dur \<le> now'
    \<and> began t' = began t"
  using assms
proof (induction "length (coming t)" arbitrary: t now)
  case 0
  then show ?case by (subst poll_loop.simps) (auto simp: spends_def)
next
  case (Suc n)
  then obtain d ps where ps: "coming t = Completes d # ps" by (cases "coming t") (auto simp: ready_all_def)
  show ?case
  proof (cases "now - start < dur")
    case True
    let ?t = "t\<lparr>coming := ps, blocks := Suc (blocks t), point_at := Check\<rparr>"
    have "poll_loop False dur start now t = poll_loop False dur start now (t\<lparr>point_at := Inside\<rparr>)"
      using Suc.prems(4) True by (subst poll_loop.simps) simp
    also have "\<dots> = poll_loop False dur start (now + d) ?t"
      using ps by (subst poll_loop.simps) simp
    finally have "poll_loop False dur start now t = poll_loop False dur start (now + d) ?t" .
    moreover have "\<exists>now' t'. poll_loop False dur start (now + d) ?t = (now', t') \<and> finished t' \<and> start + dur \<le> now'
        \<and> began t' = began ?t"
      using Suc.hyps(2) Suc.prems(1,2,3) ps
      by (intro Suc.hyps(1)) (auto simp: ready_all_def spends_def)
    ultimately show ?thesis by simp
  next
    case False
    then show ?thesis using Suc.prems(2,4) by (subst poll_loop.simps) auto
  qed
qed

lemma sweep_unfair:
  assumes "list_all (\<lambda>ps. ready_all ps \<and> dur \<le> spends ps) pss"
    and "sweep False dur now (map task_init pss) = (now', ts')" "i < length pss"
  shows "finished (ts' ! i) \<and> (\<exists>s. began (ts' ! i) = Some s \<and> now + i * dur \<le> s)"
  using assms
proof (induction pss arbitrary: now now' ts' i)
  case (Cons ps pss)
  have "ready_all ps" "dur \<le> spends ps" using Cons.prems(1) by simp_all
  then obtain now1 t1 where t1: "poll_task False dur now (task_init ps) = (now1, t1)" "finished t1"
      "now + dur \<le> now1" "began t1 = Some now"
    using poll_unfair [of "(task_init ps)\<lparr>began := Some now\<rparr>" now now dur]
    by (auto simp: poll_task_def task_init_def)
  obtain now2 ts2 where ts2: "sweep False dur now1 (map task_init pss) = (now2, ts2)" by fastforce
  have ts': "ts' = t1 # ts2" using Cons.prems(2) t1(1) ts2 by simp
  show ?case
  proof (cases i)
    case 0
    then show ?thesis using t1 ts' by simp
  next
    case (Suc j)
    then obtain s where "finished (ts2 ! j)" "began (ts2 ! j) = Some s" "now1 + j * dur \<le> s"
      using Cons.IH [OF _ ts2, of j] Cons.prems(1,3) by auto
    then show ?thesis using Suc ts' t1(3) by auto
  qed
qed simp

section \<open>Properties\<close>



text \<open>
  Why it yields: if the loops did not, streams whose writes are always ready would run one after the
  other, each for the whole duration of the test, within the first sweep; stream \<open>i\<close> would start its clock only
  after \<open>i\<close> durations.
\<close>

theorem unfair_streams_in_sequence:
  assumes "list_all (\<lambda>ps. ready_all ps \<and> dur \<le> spends ps) pss"
    and "sweeps False dur 1 now (map task_init pss) = (now', ts)" "i < length pss"
  shows "finished (ts ! i) \<and> (\<exists>s. began (ts ! i) = Some s \<and> now + i * dur \<le> s)"
  using sweep_unfair [OF assms(1) _ assms(3), of now now' ts] assms(2) by (simp split: prod.splits)

theorem unfair_streams_in_sequence_witness:
  "\<exists>s. began (snd (sweeps False 100 1 0 (map task_init (replicate 3 (replicate 10 (Completes 10))))) ! 2) = Some s
    \<and> 200 \<le> s"
proof -
  obtain now' ts where s: "sweeps False 100 1 0 (map task_init (replicate 3 (replicate 10 (Completes 10)))) = (now', ts)"
    by fastforce
  from unfair_streams_in_sequence [OF _ s, of 2]
  show ?thesis using s by (auto simp: list_all_iff)
qed

end
