(* ===== verification/P3Transfer.thy ===== *)
theory P3Transfer
  imports P3
begin

text \<open>
  What the native-async build transfers: frames and cookies are decided by the bytes and not by the pieces
  they arrive in, a server runs as the other end of the client it hears, and the ways in which the counts
  and numbers of a run can go wrong.
\<close>

section \<open>Frames\<close>

lemma length_u64_le [simp]: "length (u64_le w) = COOKIE_LEN"
  by (simp add: u64_le_def COOKIE_LEN_def)

lemma u64_le_le:
  assumes "length bs = COOKIE_LEN"
  shows "u64_le (le_u64 bs) = bs"
proof -
  obtain a b c d e f g h where bs: "bs = [a, b, c, d, e, f, g, h]"
    using assms by (auto simp: COOKIE_LEN_def length_Suc_conv eval_nat_numeral)
  show ?thesis
    unfolding bs u64_le_def le_u64_def
    by (simp add: upt_rec) (intro conjI bit_word_eqI; auto simp: bit_simps dest: bit_imp_le_length)
qed

text \<open>
  A frame is complete as soon as the bytes received extend \<open>x\<close>, and not before: then the loop returns what
  the frame decodes to, however the bytes arrive.
\<close>

definition decided_by :: "(byte list \<Rightarrow> 'm option) \<Rightarrow> byte list \<Rightarrow> 'm option future \<Rightarrow> bool" where
  "decided_by dec x r \<longleftrightarrow>
     (\<forall>acc w. x = acc @ w \<and> w \<noteq> [] \<longrightarrow> try_decode dec acc = None)
     \<and> (\<forall>w. try_decode dec (x @ w) = Some r)"

lemma comparable: "a @ b = x @ y \<Longrightarrow> (\<exists>w. x = a @ w) \<or> (\<exists>w. a = x @ w)"
  by (auto simp: append_eq_append_conv2)

lemma recv_loop_decided:
  assumes "decided_by dec x r" "acc @ concat cs = x @ y"
  shows "recv_loop dec acc cs = r"
  using assms
proof (induction dec acc cs rule: recv_loop.induct)
  case (1 dec acc cs)
  show ?case
  proof (cases "\<exists>w. acc = x @ w")
    case True
    then show ?thesis using 1(2) by (subst recv_loop.simps) (auto simp: decided_by_def)
  next
    case False
    then obtain w where w: "x = acc @ w" "w \<noteq> []" using comparable [OF 1(3)] by auto
    then have n: "try_decode dec acc = None" using 1(2) by (auto simp: decided_by_def)
    have "fst (rx_read 8192 cs) \<noteq> None"
      using 1(3) w by (cases cs) auto
    then obtain b cs' where rx: "rx_read 8192 cs = (Some b, cs')" by (metis option.exhaust prod.collapse)
    have "(acc @ b) @ concat cs' = x @ y" using rx_read_contents [OF rx] 1(3) by simp
    then show ?thesis
      using 1(1) [OF n rx [symmetric] refl 1(2)] n rx by (subst recv_loop.simps) simp
  qed
qed

text \<open>What a sent frame is decided by, and what a header too large is.\<close>

lemma try_decode_frame:
  assumes "length json < 2 ^ 32 - 4"
  shows "decided_by dec (u32_le (of_nat (length json)) @ json) (Ready (dec json))"
proof -
  let ?len = "of_nat (length json) :: u32"
  have end_pos: "unat (4 + ?len) = 4 + length json"
    using assms by (simp add: unat_word_ariths unat_of_nat take_bit_nat_eq_self unsigned_of_nat)
  have "try_decode dec acc = None" if "u32_le ?len @ json = acc @ w" "w \<noteq> []" for acc w
  proof (cases "length acc < 4")
    case False
    then have "take 4 acc = take 4 (u32_le ?len @ json)" using that(1) by simp
    then have "take 4 acc = u32_le ?len" by simp
    moreover have "length acc < 4 + length json"
      using arg_cong [OF that(1), of length] that(2) by simp
    ultimately show ?thesis by (simp add: try_decode_def Let_def end_pos)
  qed (simp add: try_decode_def)
  moreover have "try_decode dec ((u32_le ?len @ json) @ w) = Some (Ready (dec json))" for w
    by (simp add: try_decode_def Let_def end_pos)
  ultimately show ?thesis by (simp add: decided_by_def)
qed

lemma try_decode_huge:
  assumes "2 ^ 32 - 4 \<le> unat len"
  shows "decided_by dec (u32_le len) Crash"
proof -
  have "unat len < 2 ^ LENGTH(32)" by (rule unsigned_less)
  then have "(4 + unat len) mod 2 ^ 32 < 4" using assms by (simp add: mod_if) linarith
  then have end_pos: "unat (4 + len) < 4" by (simp add: unat_word_ariths)
  have "try_decode dec acc = None" if "u32_le len = acc @ w" "w \<noteq> []" for acc w
    using arg_cong [OF that(1), of length] that(2) by (cases w) (simp_all add: try_decode_def)
  moreover have "try_decode dec (u32_le len @ w) = Some Crash" for w
    using end_pos by (simp add: try_decode_def Let_def)
  ultimately show ?thesis by (simp add: decided_by_def)
qed

section \<open>Loops\<close>

lemma read_loop_total:
  "0 < cap \<or> concat cs = [] \<Longrightarrow> read_loop cap cs t = Ready (t + of_nat (length (concat cs)))"
proof (induction cap cs t rule: read_loop.induct)
  case (1 cap cs t)
  show ?case
  proof (cases "rx_read cap cs")
    case (Pair o' cs')
    show ?thesis
    proof (cases o')
      case None
      then have "cs = []" using Pair rx_read_None by blast
      then show ?thesis by (subst read_loop.simps) simp
    next
      case (Some b)
      then have rx: "rx_read cap cs = (Some b, cs')" using Pair by simp
      have len: "length (concat cs) = length b + length (concat cs')"
        using arg_cong [OF rx_read_contents [OF rx], of length] by simp
      moreover have ok: "0 < cap \<or> concat cs' = []" using 1(2) len by (metis add_is_0 length_0_conv list.size(3))
      moreover have "\<not> (cap = 0 \<and> concat cs \<noteq> [])" using 1(2) by blast
      ultimately show ?thesis
        using 1(1) [OF _ rx [symmetric] refl ok] rx
        by (subst read_loop.simps) (simp add: add.assoc)
    qed
  qed
qed

lemma cookie_loop_contents:
  "0 < cap \<Longrightarrow> cookie_loop cap acc cs = (acc', rest) \<Longrightarrow>
     acc' @ concat rest = acc @ concat cs \<and> (COOKIE_LEN \<le> length acc' \<or> rest = [])"
proof (induction cap acc cs rule: cookie_loop.induct)
  case (1 cap acc cs)
  show ?case
  proof (cases "COOKIE_LEN \<le> length acc")
    case True
    then show ?thesis using 1(3) by (subst (asm) cookie_loop.simps) auto
  next
    case False
    show ?thesis
    proof (cases "rx_read cap cs")
      case (Pair o' cs')
      show ?thesis
      proof (cases o')
        case None
        then have "cs = []" "cs' = []" using Pair rx_read_None by blast+
        then show ?thesis using 1(2,3) False by (subst (asm) cookie_loop.simps) simp
      next
        case (Some b)
        then have rx: "rx_read cap cs = (Some b, cs')" using Pair by simp
        have "cookie_loop cap (acc @ b) cs' = (acc', rest)"
          using 1(2,3) False rx by (subst (asm) cookie_loop.simps) simp
        then show ?thesis
          using 1(1) [OF _ rx [symmetric] refl 1(2)] False 1(2) rx_read_contents [OF rx] by simp
      qed
    qed
  qed
qed

text \<open>What the server reads is decided by the bytes the client sent, not by their pieces.\<close>

lemma cookie_split:
  assumes "cookie_loop (max (unat blk) COOKIE_LEN) [] cs = (acc, rest)"
  shows "length acc < COOKIE_LEN \<Longrightarrow> concat cs = acc"
    "COOKIE_LEN \<le> length acc \<Longrightarrow> take COOKIE_LEN acc = take COOKIE_LEN (concat cs)"
    "length acc + length (concat rest) = length (concat cs)"
proof -
  have c: "acc @ concat rest = concat cs" "COOKIE_LEN \<le> length acc \<or> rest = []"
    using cookie_loop_contents [OF _ assms] by (auto simp: COOKIE_LEN_def)
  show "length acc < COOKIE_LEN \<Longrightarrow> concat cs = acc" using c by auto
  show "COOKIE_LEN \<le> length acc \<Longrightarrow> take COOKIE_LEN acc = take COOKIE_LEN (concat cs)"
    by (simp flip: c(1))
  show "length acc + length (concat rest) = length (concat cs)" by (simp flip: c(1))
qed

definition received_stats :: "nat \<Rightarrow> duration \<Rightarrow> stream_stats" where
  "received_stats n took = \<lparr>sender = False, duration_millis = of_nat (took div 1000000),
     bytes_transferred = of_nat n, syscalls = 0, latency = None\<rparr>"

lemma read_data_total:
  assumes "allocates 1 blk" "blk \<noteq> 0"
  shows "read_data blk (of_nat n) cs took = Ready (received_stats (n + length (concat cs)) took)"
proof -
  have "0 < unat blk" using assms(2) by (simp add: unat_gt_0)
  then show ?thesis using assms(1) by (simp add: read_data_def read_loop_total received_stats_def)
qed

lemma server_conn_receives:
  assumes "allocates 1 blk" "blk \<noteq> 0" "concat (incoming c) = ck @ rest" "length ck = COOKIE_LEN"
  shows "collected (server_conn ck True False blk seconds measured c) = Ready [received_stats (length rest) (recv_took c)]"
proof -
  obtain acc rx where l: "cookie_loop (max (unat blk) COOKIE_LEN) [] (incoming c) = (acc, rx)" by fastforce
  note sp = cookie_split [OF l]
  have len: "COOKIE_LEN \<le> length acc" using sp(1) assms(3,4) by fastforce
  have "take COOKIE_LEN acc = ck" using sp(2) [OF len] assms(3,4) by simp
  moreover have "length acc - COOKIE_LEN + length (concat rx) = length rest"
    using sp(3) len assms(3,4) by simp
  ultimately show ?thesis
    using assms(1) l len read_data_total [OF assms(1,2), of "length acc - COOKIE_LEN" rx "recv_took c"]
    by (simp add: server_conn_def Let_def)
qed

definition full_rounds :: "nat \<Rightarrow> duration \<Rightarrow> write_round list \<Rightarrow> bool" where
  "full_rounds blk dur rs \<longleftrightarrow> list_all (\<lambda>r. dur \<le> elapsed r \<or> blk \<le> accepted r) rs"

lemma write_loop_full:
  assumes "full_rounds blk dur rs" "list_ex (\<lambda>r. dur \<le> elapsed r) rs" "0 < blk"
  shows "\<exists>smps'. write_loop blk dur measured rs blk t smps = Ready (t + of_nat (written blk dur rs blk), smps')"
  using assms
proof (induction rs arbitrary: t smps)
  case (Cons r rs)
  show ?case
  proof (cases "dur \<le> elapsed r")
    case False
    then have "blk \<le> accepted r" using Cons.prems(1) by (simp add: full_rounds_def)
    moreover obtain smps' where "write_loop blk dur measured rs blk (t + of_nat blk)
        (if measured then smps @ [nanos (stall r)] else smps)
      = Ready (t + of_nat blk + of_nat (written blk dur rs blk), smps')"
      using Cons.IH [of "t + of_nat blk" "if measured then smps @ [nanos (stall r)] else smps"]
        Cons.prems False by (auto simp: full_rounds_def)
    ultimately show ?thesis using False Cons.prems(3) by (simp add: Let_def add.assoc)
  qed simp
qed simp

lemma write_data_full:
  assumes "full_rounds (unat blk) (unat seconds * 1000000000) rs"
    and "list_ex (\<lambda>r. unat seconds * 1000000000 \<le> elapsed r) rs" "allocates 1 blk" "blk \<noteq> 0"
  shows "\<exists>s. write_data blk seconds measured rs took = Ready s \<and> sender s
    \<and> bytes_transferred s = of_nat (written (unat blk) (unat seconds * 1000000000) rs (unat blk))"
proof -
  have "0 < unat blk" using assms(4) by (simp add: unat_gt_0)
  then show ?thesis
    using write_loop_full [OF assms(1,2), of measured 0 "[]"] assms(3) by (auto simp: write_data_def)
qed

lemma join_all_ready:
  assumes "list_all2 (\<lambda>f x. f = Ready x) fs xs"
  shows "join_all fs = Ready xs"
  using assms by (induction rule: list_all2_induct) (simp_all add: both_def)

section \<open>Properties\<close>

lemma recv_sent:
  assumes "enc m = Some json" "dec json = Some m" "length json < 2 ^ 32 - 4"
    and "concat cs = send_msg enc m @ rest"
  shows "recv_msg dec cs = Ready (Some m)"
  using recv_loop_decided [OF try_decode_frame [OF assms(3), of dec], of "[]" cs rest] assms
  by (simp add: recv_msg_def send_msg_def)

text \<open>
  C26. Whatever pieces it arrives in, a control frame below the wrap of a 32-bit length is read back as the
  message that was sent, and what follows it on the stream does not matter.
\<close>

theorem p3_frame_roundtrip:
  assumes "enc m = Some json" "dec json = Some m" "length json < 2 ^ 32 - 4"
    and "concat cs = send_msg enc m @ rest"
  shows "recv_msg dec cs = Ready (Some m)"
  by (rule recv_sent [of enc m json dec cs rest]) (rule assms)+

theorem p3_frame_roundtrip_witness:
  "recv_msg (\<lambda>bs. if bs = [7, 8] then Some True else None) [[2], [0, 0], [], [0, 7], [8, 99]] = Ready (Some True)"
  by (rule p3_frame_roundtrip [where enc = "\<lambda>m. Some [7, 8]" and json = "[7, 8]" and rest = "[99]"])
    (simp_all add: send_msg_def u32_le_def u32_be_def)

text \<open>
  There is no limit on the length a header may announce, and the four largest lengths wrap: as soon as
  such a header has arrived the receiver panics.
\<close>

theorem p3_huge_header_panics:
  assumes "concat cs = u32_le len @ rest" "2 ^ 32 - 4 \<le> unat len"
  shows "recv_msg dec cs = Crash"
  using recv_loop_decided [OF try_decode_huge [OF assms(2), of dec], of "[]" cs rest] assms(1)
  by (simp add: recv_msg_def)

theorem p3_huge_header_panics_witness:
  "recv_msg (\<lambda>bs. Some bs) [[255, 255], [255, 255]] = Crash"
proof (rule p3_huge_header_panics)
  show "concat [[255, 255], [255, 255]] = u32_le 4294967295 @ []" by code_simp
qed simp

text \<open>
  C24. Authentication of data connections. Unless the bytes a client sends start with the cookie of the test, the
  server opens no stream to it and sends not a byte, whatever roles, block and time were negotiated, and returns
  no result for it (or panics before, when it cannot allocate a block). When they do, it sends exactly when it
  has the role to.
\<close>

theorem p3_cookie_required:
  assumes "length expected = COOKIE_LEN"
  shows "outgoing (server_conn expected recv_data send_data blk seconds measured c) =
      (if take COOKIE_LEN (concat (incoming c)) = expected \<and> allocates 1 blk \<and> send_data
       then Some (written (unat blk) (unat seconds * 1000000000) (rounds c) (unat blk)) else None)
    \<and> (take COOKIE_LEN (concat (incoming c)) \<noteq> expected \<longrightarrow>
         collected (server_conn expected recv_data send_data blk seconds measured c)
           = (if allocates 1 blk then Ready [] else Crash))"
proof -
  obtain acc rx where l: "cookie_loop (max (unat blk) COOKIE_LEN) [] (incoming c) = (acc, rx)" by fastforce
  note sp = cookie_split [OF l]
  have "take COOKIE_LEN (concat (incoming c)) = expected \<longleftrightarrow> \<not> (length acc < COOKIE_LEN \<or> take COOKIE_LEN acc \<noteq> expected)"
    using sp(1,2) assms by (cases "length acc < COOKIE_LEN") auto
  then show ?thesis using l by (simp add: server_conn_def Let_def)
qed

definition sample_conn :: "chunks \<Rightarrow> conn" where
  "sample_conn cs = \<lparr>incoming = cs,
     rounds = [\<lparr>elapsed = 0, accepted = 4, stall = 3\<rparr>, \<lparr>elapsed = 5, accepted = 4, stall = 3\<rparr>,
               \<lparr>elapsed = 2000000000, accepted = 0, stall = 0\<rparr>],
     send_took = 2000000000, recv_took = 2000000000\<rparr>"

theorem p3_cookie_required_witness:
  "outgoing (server_conn [1, 2, 3, 4, 5, 6, 7, 8] False True 4 1 False (sample_conn [[1, 2, 3], [4, 5, 6, 7, 9]])) = None
    \<and> collected (server_conn [1, 2, 3, 4, 5, 6, 7, 8] False True 4 1 False (sample_conn [[1, 2, 3], [4, 5, 6, 7, 9]])) = Ready []
    \<and> outgoing (server_conn [1, 2, 3, 4, 5, 6, 7, 8] False True 4 1 False (sample_conn [[1, 2, 3], [4, 5, 6, 7, 8, 0, 0]])) = Some 8"
  using p3_cookie_required [of "[1, 2, 3, 4, 5, 6, 7, 8]" False True 4 1 False "sample_conn [[1, 2, 3], [4, 5, 6, 7, 9]]"]
    p3_cookie_required [of "[1, 2, 3, 4, 5, 6, 7, 8]" False True 4 1 False "sample_conn [[1, 2, 3], [4, 5, 6, 7, 8, 0, 0]]"]
  by (simp add: sample_conn_def allocates_def COOKIE_LEN_def)

lemma server_mirrors:
  assumes "enc_p (client_params o3 cb) = Some json" "dec_p json = Some (client_params o3 cb)"
    and "length json < 2 ^ 32 - 4" "length cb = COOKIE_LEN"
    and "listening net" "control_in net = Some ctrl" "concat ctrl = send_msg enc_p (client_params o3 cb) @ rest"
    and "unat (p3_parallel o3) \<le> length (data_conns net)"
    and "roles (dir_of_opts o3) False = (sending, receiving)"
  shows "run_p3_server dec_p enc net =
    andThen (run_streams (take (unat (p3_parallel o3)) (data_conns net)) True cb receiving sending
               (p3_length o3) (p3_time o3) (p3_latency o3))
      (\<lambda>local. Ready (Inr (send_msg enc (to_results local))))"
proof -
  have m: "recv_msg dec_p ctrl = Ready (Some (client_params o3 cb))"
    using recv_loop_decided [OF try_decode_frame [OF assms(3), of dec_p], of "[]" ctrl rest] assms(1,2,7)
    by (simp add: recv_msg_def send_msg_def)
  have "roles (dir_of_opts o3) True = (receiving, sending)"
    using assms(9) by (auto simp: roles_def split: if_splits)
  moreover have "(ucast (ucast (p3_length o3) :: u64) :: usize) = p3_length o3"
    by (rule bit_word_eqI) (auto simp: bit_simps)
  ultimately show ?thesis
    using assms(5,6,8) m u64_le_le [OF assms(4)]
    by (simp add: run_p3_server_def client_params_def not_less)
qed

text \<open>
  C25. The negotiation: a server that receives the frame of a client's parameters, in any pieces, runs its
  streams as the other end of that client: with the client's cookie, block, time and measurement, sending
  exactly when the client receives and receiving exactly when it sends, on as many connections.
\<close>

theorem p3_server_mirrors_client:
  assumes "enc_p (client_params o3 cb) = Some json" "dec_p json = Some (client_params o3 cb)"
    and "length json < 2 ^ 32 - 4" "length cb = COOKIE_LEN"
    and "listening net" "control_in net = Some ctrl" "concat ctrl = send_msg enc_p (client_params o3 cb) @ rest"
    and "unat (p3_parallel o3) \<le> length (data_conns net)"
    and "roles (dir_of_opts o3) False = (sending, receiving)"
  shows "run_p3_server dec_p enc net =
    andThen (run_streams (take (unat (p3_parallel o3)) (data_conns net)) True cb receiving sending
               (p3_length o3) (p3_time o3) (p3_latency o3))
      (\<lambda>local. Ready (Inr (send_msg enc (to_results local))))"
  by (rule server_mirrors [where enc_p = enc_p and json = json and ctrl = ctrl and rest = rest]) (rule assms)+

definition sample_p3_opts :: p3_opts where
  "sample_p3_opts = \<lparr>p3_server = False, p3_client = Some ''127.0.0.1'', p3_port = 7600, p3_time = 1,
     p3_length = 4, p3_parallel = 1, p3_reverse = False, p3_bidir = False, p3_latency = False\<rparr>"

theorem p3_server_mirrors_client_witness:
  "run_p3_server (\<lambda>bs. if bs = [5] then Some (client_params sample_p3_opts [1, 2, 3, 4, 5, 6, 7, 8]) else None) (\<lambda>r. Some [1])
     \<lparr>listening = True, control_in = Some [[1, 0], [0, 0, 5]], data_conns = [sample_conn [[9]]]\<rparr>
   = andThen (run_streams [sample_conn [[9]]] True [1, 2, 3, 4, 5, 6, 7, 8] False True 4 1 False)
      (\<lambda>local. Ready (Inr (send_msg (\<lambda>r. Some [1]) (to_results local))))"
proof -
  let ?cb = "[1, 2, 3, 4, 5, 6, 7, 8] :: byte list"
  have "roles (dir_of_opts sample_p3_opts) False = (True, False)"
    by (simp add: roles_def dir_of_opts_def sample_p3_opts_def DIR_FORWARD_def DIR_BIDIR_def DIR_REVERSE_def)
  then show ?thesis
    using p3_server_mirrors_client [where enc_p = "\<lambda>m. Some [5]" and ?o3.0 = sample_p3_opts and cb = ?cb and json = "[5]"
        and dec_p = "\<lambda>bs. if bs = [5] then Some (client_params sample_p3_opts ?cb) else None"
        and net = "\<lparr>listening = True, control_in = Some [[1, 0], [0, 0, 5]], data_conns = [sample_conn [[9]]]\<rparr>"
        and ctrl = "[[1, 0], [0, 0, 5]]" and rest = "[]" and sending = True and receiving = False and enc = "\<lambda>r. Some [1]"]
    by (simp add: sample_p3_opts_def send_msg_def u32_le_def u32_be_def COOKIE_LEN_def)
qed

text \<open>
  A reader that goes away in the middle of a block is not noticed: each further round until the deadline
  counts the part of the block that was accepted once more, although nothing is written any longer.
\<close>

theorem dropped_reader_overcounts:
  assumes "0 < a" "a < blk" "elapsed part < dur" "accepted part = a"
    and "\<forall>r \<in> set gone. elapsed r < dur \<and> accepted r = 0" "dur \<le> elapsed up"
  shows "written blk dur (part # gone @ [up]) blk = a
    \<and> (\<exists>smps. write_loop blk dur measured (part # gone @ [up]) blk 0 [] = Ready (of_nat (Suc (length gone) * a), smps))"
proof -
  have d: "blk - (blk - a) = a" "\<not> blk \<le> blk - a" "a \<noteq> 0" "blk - a \<noteq> 0" using assms(1,2) by simp_all
  have w: "written blk dur (gone @ [up]) (blk - a) = 0"
    using assms(5) by (induction gone) (use d assms(6) in \<open>auto simp: Let_def\<close>)
  have "\<exists>smps'. write_loop blk dur measured (gone @ [up]) (blk - a) t smps
      = Ready (t + of_nat (length gone * a), smps')" for t smps
    using assms(5)
  proof (induction gone arbitrary: t smps)
    case (Cons r gone)
    have "write_loop blk dur measured ((r # gone) @ [up]) (blk - a) t smps
        = write_loop blk dur measured (gone @ [up]) (blk - a) (t + of_nat a)
            (if measured then smps @ [nanos (stall r)] else smps)"
      using Cons.prems d by (simp add: Let_def)
    then show ?case
      using Cons.IH [of "t + of_nat a" "if measured then smps @ [nanos (stall r)] else smps"] Cons.prems
      by (simp add: add.assoc)
  qed (use assms(6) in simp)
  from this [of "of_nat a" "if measured then [nanos (stall part)] else []"] w show ?thesis
    using assms(3,4) d by (cases measured) (simp_all add: Let_def)
qed

theorem dropped_reader_overcounts_witness:
  "\<exists>smps. write_loop 4 10 False [\<lparr>elapsed = 0, accepted = 3, stall = 1\<rparr>, \<lparr>elapsed = 1, accepted = 0, stall = 0\<rparr>,
      \<lparr>elapsed = 2, accepted = 0, stall = 0\<rparr>, \<lparr>elapsed = 10, accepted = 0, stall = 0\<rparr>] 4 0 []
    = Ready (9, smps)"
  using dropped_reader_overcounts [of 3 4 "\<lparr>elapsed = 0, accepted = 3, stall = 1\<rparr>" 10
      "[\<lparr>elapsed = 1, accepted = 0, stall = 0\<rparr>, \<lparr>elapsed = 2, accepted = 0, stall = 0\<rparr>]"
      "\<lparr>elapsed = 10, accepted = 0, stall = 0\<rparr>" False]
  by simp

text \<open>
  The results of a server are numbered after connections without entries are left out: one that fails
  authentication shifts the numbers of those behind it, which the client still counts.
\<close>

theorem failed_connection_shifts_ids:
  "run_streams [sample_conn [[0]], sample_conn [[1, 2, 3, 4, 5, 6, 7, 8, 9]]] True [1, 2, 3, 4, 5, 6, 7, 8] False True 4 1 False
     = Ready [received_stats 1 2000000000]
   \<and> results_streams (to_results [received_stats 1 2000000000]) = [(0, received_stats 1 2000000000)]"
proof -
  have "collected (server_conn [1, 2, 3, 4, 5, 6, 7, 8] True False 4 1 False (sample_conn [[0]])) = Ready []"
    by (simp add: server_conn_def sample_conn_def COOKIE_LEN_def cookie_loop.simps allocates_def)
  moreover have "collected (server_conn [1, 2, 3, 4, 5, 6, 7, 8] True False 4 1 False (sample_conn [[1, 2, 3, 4, 5, 6, 7, 8, 9]]))
      = Ready [received_stats 1 2000000000]"
    using server_conn_receives [of 4 "sample_conn [[1, 2, 3, 4, 5, 6, 7, 8, 9]]" "[1, 2, 3, 4, 5, 6, 7, 8]" "[9]"]
    by (simp add: sample_conn_def allocates_def COOKIE_LEN_def)
  ultimately show ?thesis by (simp add: run_streams_def both_def to_results_def)
qed

end
