(* ===== verification/P3Session.thy ===== *)
theory P3Session
  imports P3Transfer
begin

text \<open>
  A whole test of the native-async build, in any direction: both ends finish, and what one end sent is what
  the other counted.
\<close>

section \<open>One connection\<close>

text \<open>
  What one direction of a connection needs: the rounds of the sender get rid of whole blocks until its time is
  up, and the bytes arrive at the other end.
\<close>

definition delivers :: "usize \<Rightarrow> u64 \<Rightarrow> write_round list \<Rightarrow> byte list \<Rightarrow> bool" where
  "delivers blk seconds rs bs \<longleftrightarrow>
     (let dur = unat seconds * 1000000000
      in full_rounds (unat blk) dur rs \<and> list_ex (\<lambda>r. dur \<le> elapsed r) rs
         \<and> length bs = written (unat blk) dur rs (unat blk))"

text \<open>The connection \<open>cc\<close> of a client that sends or receives meets the connection \<open>sc\<close> of its server.\<close>

definition paired :: "usize \<Rightarrow> u64 \<Rightarrow> byte list \<Rightarrow> bool \<Rightarrow> bool \<Rightarrow> conn \<Rightarrow> conn \<Rightarrow> bool" where
  "paired blk seconds ck sending receiving cc sc \<longleftrightarrow>
     (\<exists>bs. concat (incoming sc) = ck @ bs \<and> (if sending then delivers blk seconds (rounds cc) bs else bs = []))
     \<and> (receiving \<longrightarrow> delivers blk seconds (rounds sc) (concat (incoming cc)))"

text \<open>What one list of results sent the other received, and conversely.\<close>

definition moved_by :: "bool \<Rightarrow> stream_stats list \<Rightarrow> u64 list" where
  "moved_by s xs = map bytes_transferred (filter (\<lambda>x. sender x = s) xs)"

definition mirrored :: "stream_stats list \<Rightarrow> stream_stats list \<Rightarrow> bool" where
  "mirrored xs ys \<longleftrightarrow> moved_by True xs = moved_by False ys \<and> moved_by False xs = moved_by True ys
     \<and> length xs = length ys"

lemma mirrored_append: "mirrored xs ys \<Longrightarrow> mirrored xs' ys' \<Longrightarrow> mirrored (xs @ xs') (ys @ ys')"
  by (simp add: mirrored_def moved_by_def)

lemma write_data_delivers:
  assumes "delivers blk seconds rs bs" "allocates 1 blk" "blk \<noteq> 0"
  shows "\<exists>s. write_data blk seconds measured rs took = Ready s \<and> sender s \<and> bytes_transferred s = of_nat (length bs)"
  using write_data_full [of blk seconds rs measured took] assms by (simp add: delivers_def Let_def)

lemma server_conn_authenticated:
  assumes "allocates 1 blk" "blk \<noteq> 0" "concat (incoming c) = ck @ bs" "length ck = COOKIE_LEN"
  shows "collected (server_conn ck recv_data send_data blk seconds measured c) =
    (let writer = write_data blk seconds measured (rounds c) (send_took c);
         reader = Ready (received_stats (length bs) (recv_took c))
     in if recv_data then
          (if send_data then andThen (both reader writer) (\<lambda>(r, s). Ready [s, r])
           else andThen reader (\<lambda>r. Ready [r]))
        else if send_data then andThen writer (\<lambda>s. Ready [s])
        else Ready [])"
proof -
  obtain acc rx where l: "cookie_loop (max (unat blk) COOKIE_LEN) [] (incoming c) = (acc, rx)" by fastforce
  note sp = cookie_split [OF l]
  have len: "COOKIE_LEN \<le> length acc" using sp(1) assms(3,4) by fastforce
  have "take COOKIE_LEN acc = ck" using sp(2) [OF len] assms(3,4) by simp
  moreover have "length acc - COOKIE_LEN + length (concat rx) = length bs"
    using sp(3) len assms(3,4) by simp
  ultimately show ?thesis
    using assms(1) l len read_data_total [OF assms(1,2), of "length acc - COOKIE_LEN" rx "recv_took c"]
    by (simp add: server_conn_def Let_def)
qed

lemma paired_conns:
  assumes "paired blk seconds ck sending receiving cc sc"
    and "allocates 1 blk" "blk \<noteq> 0" "length ck = COOKIE_LEN"
  shows "\<exists>xs ys. client_conn sending receiving blk seconds measured cc = Ready xs
    \<and> collected (server_conn ck sending receiving blk seconds measured sc) = Ready ys \<and> mirrored xs ys
    \<and> length xs = of_bool sending + of_bool receiving"
proof -
  obtain bs where bs: "concat (incoming sc) = ck @ bs" "if sending then delivers blk seconds (rounds cc) bs else bs = []"
    using assms(1) by (auto simp: paired_def)
  have rd: "read_data blk 0 (incoming cc) (recv_took cc)
      = Ready (received_stats (length (concat (incoming cc))) (recv_took cc))"
    using read_data_total [OF assms(2,3), of 0] by simp
  obtain s where s: "sending \<Longrightarrow> write_data blk seconds measured (rounds cc) (send_took cc) = Ready s"
      "sending \<Longrightarrow> sender s" "sending \<Longrightarrow> bytes_transferred s = of_nat (length bs)"
    using write_data_delivers [of blk seconds "rounds cc" bs measured "send_took cc", OF _ assms(2,3)] bs(2)
    by (cases sending) (auto split: if_splits)
  obtain s' where s': "receiving \<Longrightarrow> write_data blk seconds measured (rounds sc) (send_took sc) = Ready s'"
      "receiving \<Longrightarrow> sender s'" "receiving \<Longrightarrow> bytes_transferred s' = of_nat (length (concat (incoming cc)))"
    using write_data_delivers [of blk seconds "rounds sc" "concat (incoming cc)" measured "send_took sc", OF _ assms(2,3)] assms(1)
    by (cases receiving) (auto simp: paired_def)
  show ?thesis
    unfolding server_conn_authenticated [OF assms(2,3) bs(1) assms(4)]
    using s s' rd
    by (cases sending; cases receiving)
      (simp_all add: client_conn_def both_def Let_def mirrored_def moved_by_def received_stats_def)
qed

section \<open>All connections\<close>

lemma join_all_Cons: "join_all (Ready x # fs) = andThen (join_all fs) (\<lambda>xs. Ready (x # xs))"
  by (cases "join_all fs") (simp_all add: both_def)

lemma andThen_Ready: "andThen f g = Ready y \<longleftrightarrow> (\<exists>x. f = Ready x \<and> g x = Ready y)"
  by (cases f) simp_all

lemma run_streams_Cons:
  assumes "(if srv then collected (server_conn ck r s blk seconds measured c) else client_conn s r blk seconds measured c) = Ready x"
    and "run_streams cs srv ck s r blk seconds measured = Ready xs"
  shows "run_streams (c # cs) srv ck s r blk seconds measured = Ready (x @ xs)"
proof -
  obtain xss where "join_all (map (\<lambda>c. if srv then collected (server_conn ck r s blk seconds measured c)
      else client_conn s r blk seconds measured c) cs) = Ready xss" "xs = concat xss"
    using assms(2) unfolding run_streams_def andThen_Ready by auto
  then show ?thesis
    unfolding run_streams_def list.map assms(1) join_all_Cons by simp
qed

lemma paired_streams:
  assumes "list_all2 (paired blk seconds ck sending receiving) ccs scs"
    and "allocates 1 blk" "blk \<noteq> 0" "length ck = COOKIE_LEN"
  shows "\<exists>xs ys. run_streams ccs False ck sending receiving blk seconds measured = Ready xs
    \<and> run_streams scs True ck receiving sending blk seconds measured = Ready ys \<and> mirrored xs ys
    \<and> length xs = length ccs * (of_bool sending + of_bool receiving)"
  using assms(1)
proof (induction ccs scs rule: list_all2_induct)
  case Nil
  show ?case by (simp add: run_streams_def mirrored_def moved_by_def)
next
  case (Cons cc ccs sc scs)
  obtain xs ys where one: "client_conn sending receiving blk seconds measured cc = Ready xs"
      "collected (server_conn ck sending receiving blk seconds measured sc) = Ready ys" "mirrored xs ys"
      "length xs = of_bool sending + of_bool receiving"
    using paired_conns [OF Cons(1) assms(2-4)] by blast
  obtain xs' ys' where rest: "run_streams ccs False ck sending receiving blk seconds measured = Ready xs'"
      "run_streams scs True ck receiving sending blk seconds measured = Ready ys'" "mirrored xs' ys'"
      "length xs' = length ccs * (of_bool sending + of_bool receiving)"
    using Cons.IH by blast
  show ?case
    using one rest mirrored_append [OF one(3) rest(3)]
      run_streams_Cons [of False ck receiving sending blk seconds measured cc xs ccs xs']
      run_streams_Cons [of True ck sending receiving blk seconds measured sc ys scs ys']
    by simp
qed

section \<open>Properties\<close>

text \<open>
  C15. A test from end to end, forward, reverse or in both directions. When each sender's rounds get rid of whole
  blocks until its time is up, the bytes arrive in any pieces, behind the cookie where the client speaks, and
  the server gets the frame of the parameters, both ends finish: with one result for each stream and
  direction, and the numbers of bytes one end sent are those the other received. When the frame of the
  server's results reaches the client, this is what the client prints.
\<close>

theorem p3_test_completes:
  assumes "allocates 1 (p3_length o3)" "p3_length o3 \<noteq> 0"
    and "ipv4_from_str (case p3_client o3 of Some host \<Rightarrow> host | None \<Rightarrow> ''127.0.0.1'') = Some addr"
    and "random_cookie cnet = Some cb" "length cb = COOKIE_LEN" "ctrl_connects cnet addr (p3_port o3)"
    and "dialled cnet = map Some ccs" "length ccs = unat (p3_parallel o3)"
    and "listening snet" "control_in snet = Some ctrl" "data_conns snet = scs"
    and "roles (dir_of_opts o3) False = (sending, receiving)"
    and "list_all2 (paired (p3_length o3) (p3_time o3) cb sending receiving) ccs scs"
    and "enc_p (client_params o3 cb) = Some json" "dec_p json = Some (client_params o3 cb)" "length json < 2 ^ 32 - 4"
    and "concat ctrl = send_msg enc_p (client_params o3 cb)"
  shows "\<exists>xs ys. run_streams ccs False cb sending receiving (p3_length o3) (p3_time o3) (p3_latency o3) = Ready xs
    \<and> run_streams scs True cb receiving sending (p3_length o3) (p3_time o3) (p3_latency o3) = Ready ys
    \<and> run_p3_server dec_p enc snet = Ready (Inr (send_msg enc (to_results ys))) \<and> mirrored xs ys
    \<and> length xs = unat (p3_parallel o3) * (of_bool sending + of_bool receiving)
    \<and> (\<forall>rjson. enc (to_results ys) = Some rjson \<longrightarrow> dec rjson = Some (to_results ys) \<longrightarrow> length rjson < 2 ^ 32 - 4
         \<longrightarrow> concat (answer cnet) = send_msg enc (to_results ys)
         \<longrightarrow> run_p3_client dec o3 cnet = Ready (Inr (Summary (to_results xs) (to_results ys) (direction_of (dir_of_opts o3))
            # (if p3_latency o3 then [LatencySummary (to_results xs) (to_results ys)] else []))))"
proof -
  obtain xs ys where r: "run_streams ccs False cb sending receiving (p3_length o3) (p3_time o3) (p3_latency o3) = Ready xs"
      "run_streams scs True cb receiving sending (p3_length o3) (p3_time o3) (p3_latency o3) = Ready ys" "mirrored xs ys"
      "length xs = length ccs * (of_bool sending + of_bool receiving)"
    using paired_streams [OF assms(13,1,2,5)] by blast
  have len: "length scs = unat (p3_parallel o3)" using list_all2_lengthD [OF assms(13)] assms(8) by simp
  have server: "run_p3_server dec_p enc snet = Ready (Inr (send_msg enc (to_results ys)))"
    using server_mirrors [where ?o3.0 = o3 and enc_p = enc_p and json = json and dec_p = dec_p and net = snet and ctrl = ctrl
        and rest = "[]" and enc = enc, OF assms(14-16,5,9,10) _ _ assms(12)] r(2) len assms(11,17) by simp
  have "run_p3_client dec o3 cnet = Ready (Inr (Summary (to_results xs) (to_results ys) (direction_of (dir_of_opts o3))
            # (if p3_latency o3 then [LatencySummary (to_results xs) (to_results ys)] else [])))"
    if "enc (to_results ys) = Some rjson" "dec rjson = Some (to_results ys)" "length rjson < 2 ^ 32 - 4"
      "concat (answer cnet) = send_msg enc (to_results ys)" for rjson
  proof -
    have "recv_msg dec (answer cnet) = Ready (Some (to_results ys))"
      using recv_sent [of enc "to_results ys" rjson dec "answer cnet" "[]"] that by simp
    then show ?thesis
      using assms(3,4,6-8,12) r(1) by (auto simp: run_p3_client_def Let_def comp_def)
  qed
  then show ?thesis using server r assms(8) by (intro exI [of _ xs] exI [of _ ys]) simp
qed

definition bidir_opts :: p3_opts where
  "bidir_opts = sample_p3_opts\<lparr>p3_bidir := True\<rparr>"

theorem p3_test_completes_witness:
  "\<exists>dec xs ys. run_p3_client dec bidir_opts
      \<lparr>random_cookie = Some [1, 2, 3, 4, 5, 6, 7, 8], ctrl_connects = \<lambda>a p. a = (127, 0, 0, 1),
       dialled = [Some (sample_conn [[0, 0, 0], [0, 0, 0, 0, 0]])], answer = [[1, 0, 0], [0, 6]]\<rparr>
    = Ready (Inr [Summary (to_results xs) (to_results ys) Bidirectional]) \<and> mirrored xs ys \<and> length xs = 2"
proof -
  let ?cb = "[1, 2, 3, 4, 5, 6, 7, 8] :: byte list"
  let ?c = "sample_conn [[0, 0, 0], [0, 0, 0, 0, 0]]" and ?s = "sample_conn [[1, 2, 3], [4, 5, 6, 7, 8, 0, 0], [0, 0, 0, 0, 0, 0]]"
  let ?p = "client_params bidir_opts ?cb"
  let ?cnet = "\<lparr>random_cookie = Some ?cb, ctrl_connects = \<lambda>a p. a = (127, 0, 0, 1), dialled = [Some ?c], answer = [[1, 0, 0], [0, 6]]\<rparr>"
  let ?snet = "\<lparr>listening = True, control_in = Some [[1, 0, 0, 0], [5]], data_conns = [?s]\<rparr>"
  define dec :: "byte list \<Rightarrow> test_results option" where
    "dec = (\<lambda>bs. case run_streams [?s] True ?cb True True 4 1 False of Ready ys \<Rightarrow> Some (to_results ys) | _ \<Rightarrow> None)"
  have opts: "p3_length bidir_opts = 4" "p3_time bidir_opts = 1" "p3_latency bidir_opts = False" "p3_parallel bidir_opts = 1"
      "p3_client bidir_opts = Some ''127.0.0.1''" "dir_of_opts bidir_opts = DIR_BIDIR"
    by (simp_all add: bidir_opts_def sample_p3_opts_def dir_of_opts_def)
  have r: "roles (dir_of_opts bidir_opts) False = (True, True)" "direction_of DIR_BIDIR = Bidirectional"
    by (simp_all add: opts roles_def direction_of_def DIR_BIDIR_def DIR_REVERSE_def)
  have "delivers 4 1 (rounds (sample_conn x)) [0, 0, 0, 0, 0, 0, 0, 0]" for x
    by (simp add: delivers_def sample_conn_def full_rounds_def)
  then have pair: "list_all2 (paired (p3_length bidir_opts) (p3_time bidir_opts) ?cb True True) [?c] [?s]"
    unfolding opts by (simp add: paired_def) (simp add: sample_conn_def)
  have addr: "ipv4_from_str (case p3_client bidir_opts of Some host \<Rightarrow> host | None \<Rightarrow> ''127.0.0.1'') = Some (127, 0, 0, 1)"
    unfolding opts by code_simp
  have frames: "send_msg (\<lambda>m :: p3_params. Some [5]) ?p = [1, 0, 0, 0, 5]"
      "send_msg (\<lambda>m :: test_results. Some [6]) z = [1, 0, 0, 0, 6]" for z
    by (simp_all add: send_msg_def u32_le_def u32_be_def)
  obtain xs ys where t: "run_streams [?s] True ?cb True True (p3_length bidir_opts) (p3_time bidir_opts) (p3_latency bidir_opts) = Ready ys"
      "mirrored xs ys" "length xs = unat (p3_parallel bidir_opts) * (of_bool True + of_bool True)"
      "\<forall>rjson. Some [6] = Some rjson \<longrightarrow> dec rjson = Some (to_results ys) \<longrightarrow> length rjson < 2 ^ 32 - 4
         \<longrightarrow> concat (answer ?cnet) = send_msg (\<lambda>m. Some [6]) (to_results ys)
         \<longrightarrow> run_p3_client dec bidir_opts ?cnet = Ready (Inr (Summary (to_results xs) (to_results ys) (direction_of (dir_of_opts bidir_opts))
            # (if p3_latency bidir_opts then [LatencySummary (to_results xs) (to_results ys)] else [])))"
    using p3_test_completes [where ?o3.0 = bidir_opts and cnet = ?cnet and cb = ?cb and snet = ?snet and ctrl = "[[1, 0, 0, 0], [5]]"
        and enc_p = "\<lambda>m. Some [5]" and json = "[5]" and dec_p = "\<lambda>bs. Some ?p" and enc = "\<lambda>m. Some [6]" and dec = dec,
        OF _ _ addr _ _ _ _ _ _ _ _ r(1) pair] frames
    by (auto simp: opts allocates_def COOKIE_LEN_def)
  have "dec [6] = Some (to_results ys)" using t(1) by (simp add: dec_def opts)
  then show ?thesis
    using t(2-4) frames by (intro exI [of _ dec] exI [of _ xs] exI [of _ ys]) (simp add: opts r(2))
qed

end
