(* ===== verification/Host.thy ===== *)
theory Host
  imports P3Session
begin

text \<open>
  \<open>netperf-p3-host/src/main.rs\<close>: the host that runs the native-async program as a component of \<open>wasmtime\<close>. The
  operations of \<open>wasmtime\<close> and what they return are the environment; the order in which they are called, what
  each is given and how the process ends are the program's.
\<close>

section \<open>The host\<close>

record engine_config =
  async_support :: bool
  component_model_async :: bool
  perf_map :: bool

text \<open>What the guest sees of the process that runs it.\<close>

record guest_ctx =
  inherits_stdio :: bool
  inherits_env :: bool
  inherits_network :: bool
  guest_args :: "string list"

text \<open>
  \<open>wasmtime\<close>: the engine for a configuration, the two sets of interfaces, the component in a file, its
  instance, and the run of the guest, which may trap and otherwise returns its own result.
\<close>

record ('e, 'c, 'i) wasmtime =
  new_engine :: "engine_config \<Rightarrow> 'e + unit"
  link_p2 :: "'e + unit"
  link_p3 :: "'e + unit"
  from_file :: "string \<Rightarrow> 'e + 'c"
  instantiate :: "guest_ctx \<Rightarrow> 'c \<Rightarrow> 'e + 'i"
  call_run :: "guest_ctx \<Rightarrow> 'i \<Rightarrow> 'e + (unit + unit)"

datatype 'e host_exit = Returns "'e + unit" | Exits nat | Panics

definition host_config :: "bool \<Rightarrow> engine_config" where
  "host_config perfmap =
     \<lparr>async_support = True, component_model_async = True, perf_map = perfmap\<rparr>"

definition host_ctx :: "string list \<Rightarrow> guest_ctx" where
  "host_ctx as =
     \<lparr>inherits_stdio = True, inherits_env = True, inherits_network = True, guest_args = as\<rparr>"

text \<open>
  \<open>argv\<close> are the arguments of the process, the name of the program first; \<open>perfmap\<close> is whether the variable
  \<open>NETPERF_PERFMAP\<close> is set.
\<close>

definition host_main :: "('e, 'c, 'i) wasmtime \<Rightarrow> bool \<Rightarrow> string list \<Rightarrow> 'e host_exit" where
  "host_main w perfmap argv =
     (let as = drop 1 argv
      in case new_engine w (host_config perfmap) of
           Inl e \<Rightarrow> Returns (Inl e)
         | Inr _ \<Rightarrow>
             (case link_p2 w of
                Inl e \<Rightarrow> Returns (Inl e)
              | Inr _ \<Rightarrow>
                  (case link_p3 w of
                     Inl e \<Rightarrow> Returns (Inl e)
                   | Inr _ \<Rightarrow>
                       (case as of
                          [] \<Rightarrow> Panics
                        | path # _ \<Rightarrow>
                            (case from_file w path of
                               Inl e \<Rightarrow> Returns (Inl e)
                             | Inr component \<Rightarrow>
                                 (case instantiate w (host_ctx as) component of
                                    Inl e \<Rightarrow> Returns (Inl e)
                                  | Inr command \<Rightarrow>
                                      (case call_run w (host_ctx as) command of
                                         Inl e \<Rightarrow> Returns (Inl e)
                                       | Inr (Inr _) \<Rightarrow> Returns (Inr ())
                                       | Inr (Inl _) \<Rightarrow> Exits 1)))))))"

text \<open>The exit status: an error that \<open>main\<close> returns is 1, a panic is 101.\<close>

fun exit_status :: "'e host_exit \<Rightarrow> nat" where
  "exit_status (Returns (Inr _)) = 0"
| "exit_status (Returns (Inl _)) = 1"
| "exit_status (Exits n) = n"
| "exit_status Panics = 101"

section \<open>The program in its host\<close>

text \<open>
  A \<open>wasmtime\<close> that loads the program and runs it: its options are what \<open>parse\<close> makes of its arguments. A
  future that waits for ever or panics is a trap, or never returns.
\<close>

definition hosts ::
    "('e, 'c, 'i) wasmtime \<Rightarrow> (string list \<Rightarrow> p3_opts) \<Rightarrow> (p3_opts \<Rightarrow> (unit + byte list + report list) future) \<Rightarrow> bool" where
  "hosts w parse guest \<longleftrightarrow>
     (\<forall>cfg. async_support cfg \<and> component_model_async cfg \<longrightarrow> new_engine w cfg = Inr ())
     \<and> link_p2 w = Inr () \<and> link_p3 w = Inr ()
     \<and> (\<forall>path. \<exists>c. from_file w path = Inr c \<and> (\<forall>ctx. \<exists>i. instantiate w ctx c = Inr i
          \<and> (\<forall>r. inherits_network ctx \<longrightarrow> guest (parse (guest_args ctx)) = Ready r
               \<longrightarrow> call_run w ctx i = Inr (map_sum id (\<lambda>_. ()) r))))"

text \<open>
  C34. How a test ends is what the process reports: when the program returns, its host exits with 0 if it
  returned \<open>Ok\<close> and with 1 if it returned \<open>Err\<close>; its options are read from the arguments behind the name of the
  host, the component's path included, whether or not profiling is switched on.
\<close>

theorem host_reports_result:
  assumes "hosts w parse (\<lambda>o3. run_p3 dec_p enc dec o3 snet cnet)" "argv = name # path # as"
    and "run_p3 dec_p enc dec (parse (path # as)) snet cnet = Ready r"
  shows "exit_status (host_main w perfmap argv) = (case r of Inl _ \<Rightarrow> 1 | Inr _ \<Rightarrow> 0)"
proof -
  obtain c where c: "from_file w path = Inr c" "\<And>ctx. \<exists>i. instantiate w ctx c = Inr i
      \<and> (\<forall>r. inherits_network ctx \<longrightarrow> run_p3 dec_p enc dec (parse (guest_args ctx)) snet cnet = Ready r
               \<longrightarrow> call_run w ctx i = Inr (map_sum id (\<lambda>_. ()) r))"
    using assms(1) unfolding hosts_def by blast
  obtain i where "instantiate w (host_ctx (path # as)) c = Inr i"
      "call_run w (host_ctx (path # as)) i = Inr (map_sum id (\<lambda>_. ()) r)"
    using c(2) [of "host_ctx (path # as)"] assms(3) by (auto simp: host_ctx_def)
  moreover have "new_engine w (host_config perfmap) = Inr ()" "link_p2 w = Inr ()" "link_p3 w = Inr ()"
    using assms(1) by (simp_all add: hosts_def host_config_def)
  ultimately show ?thesis
    using assms(2) c(1) by (auto simp: host_main_def Let_def split: sum.split)
qed

text \<open>Without an argument the host panics once the interfaces are linked, before it opens any file.\<close>

lemma host_without_component:
  assumes "new_engine w (host_config perfmap) = Inr ()" "link_p2 w = Inr ()" "link_p3 w = Inr ()" "length argv \<le> 1"
  shows "host_main w perfmap argv = Panics"
  using assms by (cases argv) (simp_all add: host_main_def)

definition sample_wasmtime :: "(string list \<Rightarrow> p3_opts) \<Rightarrow> (p3_opts \<Rightarrow> (unit + byte list + report list) future)
    \<Rightarrow> (unit, unit, unit) wasmtime" where
  "sample_wasmtime parse guest = \<lparr>new_engine = \<lambda>cfg. if async_support cfg then Inr () else Inl (),
     link_p2 = Inr (), link_p3 = Inr (), from_file = \<lambda>path. Inr (), instantiate = \<lambda>ctx c. Inr (),
     call_run = \<lambda>ctx i. case guest (parse (guest_args ctx)) of Ready r \<Rightarrow> Inr (map_sum id (\<lambda>_. ()) r) | _ \<Rightarrow> Inl ()\<rparr>"

lemma sample_hosts: "hosts (sample_wasmtime parse guest) parse guest"
  by (simp add: hosts_def sample_wasmtime_def)

text \<open>A client that is given the name of its server, and not an address, fails; its host exits with 1.\<close>

theorem host_reports_result_witness:
  "exit_status (host_main (sample_wasmtime (\<lambda>as. sample_p3_opts\<lparr>p3_client := Some (last as)\<rparr>)
      (\<lambda>o3. run_p3 (\<lambda>bs. None) (\<lambda>r. None) (\<lambda>bs. None) o3 \<lparr>listening = False, control_in = None, data_conns = []\<rparr>
         \<lparr>random_cookie = None, ctrl_connects = \<lambda>a p. True, dialled = [], answer = []\<rparr>))
     True [''netperf-p3-host'', ''netperf.wasm'', ''-c'', ''localhost'']) = 1"
proof -
  let ?parse = "\<lambda>as. sample_p3_opts\<lparr>p3_client := Some (last as)\<rparr>"
  have "split_dots ''localhost'' = [''localhost'']" by simp
  moreover have "octet ''localhost'' = None" by (simp add: octet_def)
  ultimately have "ipv4_from_str ''localhost'' = None" by (simp add: ipv4_from_str_def)
  then have "run_p3 (\<lambda>bs. None) (\<lambda>r. None) (\<lambda>bs. None) (?parse [''netperf.wasm'', ''-c'', ''localhost''])
      \<lparr>listening = False, control_in = None, data_conns = []\<rparr>
      \<lparr>random_cookie = None, ctrl_connects = \<lambda>a p. True, dialled = [], answer = []\<rparr> = Ready (Inl ())"
    by (simp add: run_p3_def run_p3_client_def sample_p3_opts_def)
  from host_reports_result [OF sample_hosts [where parse = ?parse] refl this] show ?thesis by simp
qed

end
