(* ===== verification/Spec2Isabelle.thy ===== *)
theory Spec2Isabelle
  imports Atomic Interruptions Announcements Dialling Select Negotiation CommandLine UnitTests P3Fair Host
begin

text \<open>
  netperf measures the throughput and the latency of a network path between two WebAssembly programs. This
  library models its Rust crates and proves what makes a measurement correct.

  \<^bold>\<open>The program.\<close> A client and a server talk over a control connection; the data flows on further connections.
  In the crate \<open>netperf-p2\<close> (\<open>src/crates/netperf-p2\<close>) the accept loop of the server (\<open>server.rs\<close>) reads the hello of
  a client, creates the one test that may be in flight, and hands the later connections that present the
  cookie of this test to its controller. The controller (\<open>controller.rs\<close>), one on each end, drives the test
  through its states \<open>TestStart\<close>, \<open>CreateStreams\<close>, \<open>Running\<close> and \<open>ExchangeResults\<close>; the server announces each of
  them to the client. Every data connection belongs to a worker task (\<open>common/stream_worker.rs\<close>) that sends or
  receives until its time is up. Controller and workers talk through bounded channels. At the end the two
  controllers exchange their results and the client and the server print them (\<open>netperf-core/src/ui.rs\<close>) with
  the percentiles of \<open>netperf-core/src/stats.rs\<close>. The crate \<open>netperf-p3\<close> (\<open>src/crates/netperf-p3/src/lib.rs\<close>) is a
  second implementation, in one file, for the native-async host interface.

  \<^bold>\<open>The theories.\<close>
    \<^item> \<open>Prelude\<close>: the integer widths, association lists that stand for hash maps, shared lemmas, \<open>decimal\<close>.
    \<^item> \<open>Runtime\<close>: big- and little-endian integers, and the interfaces of the asynchronous runtime as locales:
      \<open>byte_source\<close> and \<open>byte_sink\<close> for the two directions of a stream (interpreted by a socket whose bytes come in
      arbitrary pieces and by the in-memory buffers of the unit tests), \<open>bounded_channel\<close> for the sending half of
      an \<open>mpsc\<close> channel (interpreted by the channel to a worker and the channel to a controller).
    \<^item> \<open>Stats\<close> (\<open>stats.rs\<close>): \<open>from_samples\<close> and the result types. The percentiles are the nearest-rank ones, and
      are ordered, for up to 43383508 samples; with one more \<open>99 * n\<close> wraps in the 32-bit \<open>usize\<close>. They and the
      mean lie between the minimum and the maximum for every sample.
    \<^item> \<open>Protocol\<close> (\<open>consts.rs\<close>, \<open>opts.rs\<close>, \<open>data.rs\<close>, \<open>control.rs\<close>): messages, envelopes, states, errors, parameters.
    \<^item> \<open>Framing\<close> (\<open>net_utils.rs\<close>): \<open>send_control_message\<close>, \<open>read_control_message\<close> and the helpers over them, for any
      byte source and sink. Reading refines \<open>decode_frame\<close>, for every way the bytes are cut; round trip; errors.
    \<^item> \<open>PerfTest\<close> (\<open>perf_test.rs\<close>): the state of a test and \<open>set_state\<close>; both ends agree on the streams.
    \<^item> \<open>Controller\<close> (\<open>controller.rs\<close>): registration of streams, messages, results, and the loop, with what it awaits as
      arguments. \<open>ServerSession\<close> and \<open>ClientSession\<close> execute the loop of either role from its start to its end;
      \<open>Dialling\<close> shows when the loop that opens connections returns.
    \<^item> \<open>Select\<close>: the wait of the client's loop at the level of bytes, where a read that loses the race is dropped.
    \<^item> \<open>Server\<close> (\<open>server.rs\<close>): \<open>serve_connection\<close>, and \<open>server_step\<close>, the steps of the accept loop, the controller task,
      the workers and a failing control connection. \<open>ServerInv\<close> proves the invariant behind authentication,
      \<open>Announcements\<close> the one behind the order of the announced states, \<open>Delivery\<close> counts the notifications on
      their way to the controller: up to five streams none is lost, a burst of more leaves the server waiting for
      ever.
    \<^item> \<open>Interleave\<close> (\<open>server.rs\<close>, \<open>controller.rs\<close>): the same system with a step for each stretch of a task between
      two awaits, and the mutex of the state explicit. \<open>InterleaveInv\<close> holds its invariants; \<open>Interruptions\<close>
      proves authentication, the order of the announcements and freedom from deadlock at this grain, and how a
      silent peer blocks the server and a failing test ends it; \<open>Atomic\<close> shows that the runs of theory \<open>Server\<close> are
      among its runs.
    \<^item> \<open>Client\<close> (\<open>client.rs\<close>): the negotiation, and the session of a client with a server. \<open>Negotiation\<close> joins it to
      \<open>Framing\<close>: the bytes a client writes are what the accept loop decides on. \<open>Program\<close> (\<open>lib.rs\<close>) chooses the role,
      \<open>CommandLine\<close> (\<open>opts.rs\<close>) holds the options and the groups declared for them.
    \<^item> \<open>UnitTests\<close>: the unit tests of \<open>control.rs\<close> and \<open>net_utils.rs\<close>, which hold of the model.
    \<^item> \<open>Worker\<close> (\<open>stream_worker.rs\<close>): the whole task. The answers of the futures at each poll and the clock are inputs.
      Every way its loop can end has its result, its interval reports add up to its totals, its latency samples
      are the gaps between completions, and its goodput windows are accurate.
    \<^item> \<open>Float64\<close>: double-precision arithmetic with rounding to nearest even, and \<open>approx\<close>, its relative error.
    \<^item> \<open>Report\<close> (\<open>ui.rs\<close>): every printed line as a string; totals, latency tables, units.
    \<^item> \<open>P3\<close> and \<open>P3Transfer\<close> (\<open>netperf-p3\<close>): the frames, the data loops and authentication; \<open>P3Session\<close> a whole test of
      both ends in any direction; \<open>P3Fair\<close> the write loops at the level of polls, which keep in step because they
      yield. \<open>Host\<close> (\<open>netperf-p3-host\<close>) is the process that runs them in \<open>wasmtime\<close>.

  \<^bold>\<open>How the model corresponds to the code.\<close> A definition has the name of the function or type it models. State is
  passed explicitly: \<open>perf_test\<close>, \<open>controller\<close> and \<open>server\<close> are the structures of these names, with what the code
  does to the outside recorded in them (control messages sent, lines printed, replies written). Errors are
  values (\<open>Inl\<close>); a panic is one too, since a panic of a task reaches its owner as an error of the join.
  \<open>any_error\<close> has one constructor for each error of the code, with \<open>anyhow\<close>'s contexts around it.

  \<^bold>\<open>Bounds and fuel.\<close> The target is \<open>wasm32-wasip2\<close>: \<open>usize\<close> is a 32-bit word, the other integers have their width,
  and arithmetic wraps, as in the release profile. The channels hold five messages, so the delivery theorems
  speak of at most six hellos with one cookie: the control connection and five data connections. The only
  fuel is that of \<open>shortest\<close> in \<open>Report\<close>, 1100 decimals: a positive double has no more. All other loops are total:
  they run over the inputs the environment supplies, or have a measure. A wait that the inputs do not end is
  a value of its own (\<open>Blocked\<close>, \<open>Wait\<close>, \<open>Draining\<close>, \<open>Running_load\<close>, \<open>Pending\<close>, \<open>None\<close>), so that theorems that say
  an operation returns exclude it.

  \<^bold>\<open>What is assumed.\<close> The JSON codec (\<open>serde_json\<close>) is a pair of functions of
  which round trips assume that the decoder inverts the encoder on the message at hand. In theory
  \<open>Server\<close>, and in what \<open>ServerInv\<close>, \<open>Announcements\<close> and
  \<open>Delivery\<close> prove about it, a connection is served and a message is handled in one step. Theory
  \<open>Interleave\<close> drops this: on one thread, tasks interrupt each other at every await. It has no step
  in the middle of the exchange of results, during which the state refuses every connection, nor of the creation
  of a test, during which no other exists; and it treats the mutex as free whenever the accept loop does not
  hold it, since the controller never waits with it locked. Not every run of \<open>Interleave\<close> is one of
  \<open>Server\<close>: a message that is being handled no longer takes a place in the channel, and a
  controller may end while a connection is being read. \<open>join_all\<close> polls its futures in order, as it
  does for up to thirty. What \<open>clap\<close> makes of a group of options is its documented meaning. A hash
  map is an association list with one entry per key; its order is the order of iteration, and theorems about the
  reports hold for every order.

  \<^bold>\<open>Not modelled.\<close> \<open>wasmtime\<close> itself is a parameter of \<open>Host\<close>,
  whose store and view only carry its values. \<open>main.rs\<close> of \<open>netperf-p2\<close> starts the
  runtime and \<open>lib.rs\<close> also sets the log level; log lines, \<open>peer_to_string\<close>, colours
  and bold face do not appear. Splitting the command line into options is \<open>clap\<close>'s. The derived
  \<open>Debug\<close> format of messages is a parameter of \<open>render\<close>. The first read of a
  connection has no timeout in the code: in \<open>Interleave\<close> a peer that stays silent is one whose read
  is never taken; elsewhere every read returns. The contents of the data blocks, the growth of the sample
  vectors beyond their capacity and the vector of connections in \<open>netperf-p3\<close>, whose element size
  belongs to generated bindings, are left out, as is the exhaustion of memory. \<open>listen\<close> and
  \<open>connect\<close> of \<open>netperf-p3\<close> only pass errors of the bindings on. The files under
  \<open>wit\<close> and \<open>tools\<close> contain no Rust.
\<close>

end
